theory Spec2Isabelle
  imports Complex_Main "HOL-Library.Char_ord" "HOL-Library.List_Lexorder"
begin

text \<open>
  The reward selection and redemption engine of the gym back end: the prize catalogue
  (Prize.js), the roulette (Roulette.js), the won-prize rows and their lifecycle
  (PrizeWinning.js) and the scan gate (QRCode.js). Each Sequelize model is a record of
  the columns the engine touches, each method a function of the receiver, the clock and
  the tables it queries, and each \<open>throw\<close> an \<open>Inl\<close> result.
\<close>

section \<open>Data model\<close>

text \<open>
  Dates are instants in milliseconds of local wall-clock time counted from
  1970-01-01T00:00 (a Thursday); the time zone offset is fixed. A nullable column is an
  \<open>option\<close>. Probabilities are JavaScript numbers, with the rounding of double
  arithmetic; counters and dates are integers, on which that arithmetic is exact.
  Every \<open>new Date()\<close> read inside one operation yields the instant passed to it.
\<close>

type_synonym date = int

datatype status = Pending | Applied | Redeemed | Expired | Cancelled

datatype prize_type =
  Membership_days | Discount_percentage | Discount_amount | Free_product
  | Points | Cash | Service | Other

text \<open>Prize.js: the columns the engine reads or writes.\<close>

record prize =
  pz_id :: string
  pz_type :: prize_type
  pz_value :: rat
  pz_is_active :: bool
  pz_stock_quantity :: "int option"
  pz_awarded_count :: int
  pz_redeemed_count :: int
  pz_valid_from :: date
  pz_valid_until :: "date option"
  pz_auto_apply :: bool
  pz_expiration_days :: "int option"
  pz_max_per_day :: "int option"
  pz_max_per_week :: "int option"

text \<open>
  A JavaScript number: a finite IEEE 754 double, given by its exact value, an infinity
  or NaN. Negative zero is not told apart from zero; no expression below can observe
  the difference.
\<close>

datatype number = Finite rat | PosInf | NegInf | NaN

text \<open>
  Roulette.js: one element of \<open>sectors_config\<close>. A field that is absent or null in the
  JSON is \<open>None\<close>. An array element is an object, and \<open>indexOf\<close> compares objects
  by identity, so each element carries its identity next to its fields.
\<close>

record sector =
  sc_prize_id :: "string option"
  sc_probability :: number
  sc_color :: "string option"

type_synonym sector_obj = "nat \<times> sector"

record roulette =
  rl_id :: string
  rl_sectors_config :: "sector_obj list"
  rl_is_active :: bool
  rl_max_spins_per_day :: "int option"
  rl_max_spins_per_week :: "int option"
  rl_cooldown_minutes :: int
  rl_valid_from :: date
  rl_valid_until :: "date option"
  rl_available_hours_start :: "string option"
  rl_available_hours_end :: "string option"
  rl_available_days :: "int list"
  rl_total_spins :: int
  rl_total_prizes_awarded :: int

text \<open>PrizeWinning.js: the won-prize row.\<close>

record prize_winning =
  pw_client_id :: string
  pw_prize_id :: string
  pw_roulette_id :: "string option"
  pw_status :: status
  pw_created_at :: date
  pw_applied_date :: "date option"
  pw_redeemed_date :: "date option"
  pw_expires_date :: "date option"
  pw_auto_applied :: bool
  pw_manual_redemption_required :: bool
  pw_redemption_code :: "string option"
  pw_processed_by_user_id :: "string option"
  pw_processing_notes :: "string option"
  pw_notification_sent :: bool
  pw_notification_sent_date :: "date option"
  pw_requires_verification :: bool
  pw_verified :: bool
  pw_verified_by_user_id :: "string option"
  pw_verified_date :: "date option"
  pw_cancelled_reason :: "string option"
  pw_cancelled_by_user_id :: "string option"
  pw_cancelled_date :: "date option"

datatype prize_category = Basic | Premium | Exclusive | Special

text \<open>QRCode.js: the scan gate.\<close>

record qr_code =
  qr_is_active :: bool
  qr_is_used :: bool
  qr_used_date :: "date option"
  qr_used_by_client_id :: "string option"
  qr_prize_category :: prize_category
  qr_valid_from :: date
  qr_valid_until :: "date option"
  qr_max_uses :: int
  qr_current_uses :: int
  qr_time_restricted :: bool
  qr_allowed_hours_start :: "string option"
  qr_allowed_hours_end :: "string option"
  qr_metadata :: "string option"
  qr_scan_count :: int
  qr_last_scan_date :: "date option"

text \<open>
  Which Sequelize models are registered (\<open>sequelize.models.X\<close> is defined); the code
  guards most cross-model calls with these tests.
\<close>

record models =
  has_Prize :: bool
  has_Client :: bool
  has_Notification :: bool
  has_PrizeWinning :: bool
  has_Roulette :: bool

text \<open>
  Calls that leave the engine: the type-specific side effect dispatched by
  \<open>Prize.applyToClient\<close> (to the membership, points and order collaborators) and the
  notifications created by \<open>sendNotification\<close>.
\<close>

datatype effect =
  ApplyMembershipDays string rat
  | AddPoints string rat
  | ApplyFreeProduct string

datatype notification_type = Won | N_applied | N_redeemed | N_cancelled | N_expired

text \<open>The tables other than \<open>prize_winnings\<close>, and the log of outgoing calls.\<close>

record world =
  prizes :: "string \<rightharpoonup> prize"
  roulettes :: "string \<rightharpoonup> roulette"
  clients :: "string list"
  effects :: "effect list"
  notifications :: "(string \<times> notification_type) list"

text \<open>
  The errors the code throws. All are plain \<open>Error\<close> objects told apart by message:
  \<open>AlreadyStatus s\<close> is "Premio ya s" (a state conflict on apply), \<open>CannotRedeem s\<close> is
  "No se puede canjear un premio s", \<open>CannotCancel\<close> is "No se puede cancelar un premio
  ya aplicado o canjeado" (the state conflict on cancel), \<open>CodeGenerationExhausted\<close> is
  "No se pudo generar un codigo de canje unico", \<open>SumNot100\<close> is "La suma de
  probabilidades debe ser 100%", \<open>SectorIncomplete n\<close> is "Sector n debe tener prize_id,
  probability y color", \<open>SectorPrizeNotFound\<close> is "Premio ... no encontrado para sector".
  \<open>TypeError\<close> is the error the runtime raises for a property read on \<open>undefined\<close>.
\<close>

datatype error =
  AlreadyStatus status
  | PrizeExpired
  | RequiresVerification
  | PrizeNotFound
  | ClientNotFound
  | CouldNotApply
  | CannotRedeem status
  | HasExpired
  | CannotCancel
  | CodeGenerationExhausted
  | NoSectors
  | SumNot100
  | SectorIncomplete int
  | SectorPrizeNotFound "string option"
  | CodeDeactivated
  | CodeExhausted
  | CodeNotYetValid
  | CodeExpired
  | CodeWrongHour
  | TypeError

text \<open>The structured results \<open>{ available: false, reason }\<close> and \<open>{ applied, reason }\<close>.\<close>

datatype reason =
  Deactivated | NotYetValid | NoLongerValid | OutOfStock
  | DailyLimitReached | WeeklyLimitReached
  | NotAvailableToday | NotAvailableAtThisHour
  | DailySpinLimitReached | WeeklySpinLimitReached

datatype availability = Available | Unavailable reason

datatype apply_result = Applied_ok | Not_applied_manual | Not_applied_no_client_model

section \<open>JavaScript helpers\<close>

text \<open>Truthiness of a nullable string (null, undefined and the empty string are falsy).\<close>

definition truthy :: "string option \<Rightarrow> bool" where
  "truthy s = (case s of None \<Rightarrow> False | Some v \<Rightarrow> v \<noteq> [])"

text \<open>
  \<open>if (this.cap && ...count >= this.cap)\<close>: a cap that is null or 0 is falsy and
  switches the check off.
\<close>

definition cap_reached :: "int option \<Rightarrow> int \<Rightarrow> bool" where
  "cap_reached cap n = (case cap of None \<Rightarrow> False | Some c \<Rightarrow> c \<noteq> 0 \<and> n \<ge> c)"

definition ms_per_day :: int where
  "ms_per_day = 86400000"

text \<open>\<open>d.setHours(0, 0, 0, 0)\<close>.\<close>

definition startOfDay :: "date \<Rightarrow> date" where
  "startOfDay t = t - t mod ms_per_day"

text \<open>\<open>d.getDay()\<close>: 0 is Sunday; day 0 of the epoch is a Thursday.\<close>

definition getDay :: "date \<Rightarrow> int" where
  "getDay t = (t div ms_per_day + 4) mod 7"

text \<open>\<open>d.setDate(d.getDate() - d.getDay()); d.setHours(0, 0, 0, 0)\<close>.\<close>

definition startOfWeek :: "date \<Rightarrow> date" where
  "startOfWeek t = startOfDay (t - getDay t * ms_per_day)"

definition digit :: "int \<Rightarrow> char" where
  "digit n = ''0123456789'' ! nat n"

definition pad2 :: "int \<Rightarrow> string" where
  "pad2 n = [digit (n div 10 mod 10), digit (n mod 10)]"

text \<open>\<open>d.toTimeString().slice(0, 8)\<close>: the local time of day as HH:MM:SS.\<close>

definition timeString :: "date \<Rightarrow> string" where
  "timeString t =
     (let s = (t mod ms_per_day) div 1000
      in pad2 (s div 3600) @ '':'' @ pad2 (s div 60 mod 60) @ '':'' @ pad2 (s mod 60))"

text \<open>
  The allowed-hours test shared by \<open>Roulette.isAvailable\<close> and \<open>QRCode.isValidTime\<close>;
  the strings are compared as JavaScript compares them, lexicographically.
\<close>

definition inTimeRange :: "string \<Rightarrow> string \<Rightarrow> string \<Rightarrow> bool" where
  "inTimeRange currentTime start stop =
     (if start > stop then currentTime \<ge> start \<or> currentTime \<le> stop
      else currentTime \<ge> start \<and> currentTime \<le> stop)"

text \<open>
  \<open>if (start && stop) { ... inTimeRange ... }\<close>: without both bounds every time of day
  is allowed.
\<close>

definition hoursOk :: "string option \<Rightarrow> string option \<Rightarrow> string \<Rightarrow> bool" where
  "hoursOk start stop currentTime =
     (case start of
        None \<Rightarrow> True
      | Some s \<Rightarrow>
          (case stop of
             None \<Rightarrow> True
           | Some e \<Rightarrow> if s \<noteq> [] \<and> e \<noteq> [] then inTimeRange currentTime s e else True))"

section \<open>Double arithmetic\<close>

text \<open>
  Rounding to the nearest double, ties to even. \<open>binade x\<close> is the exponent of the
  binade of a positive \<open>x\<close>, kept within the exponents of the format (subnormal
  numbers share the least one); the spacing of doubles there is \<open>2 powi (binade x - 52)\<close>.
\<close>

function binade_up :: "rat \<Rightarrow> int \<Rightarrow> int" where
  "binade_up x e = (if e < 1023 \<and> 2 powi (e + 1) \<le> x then binade_up x (e + 1) else e)"
  by pat_completeness auto
termination
  by (relation "measure (\<lambda>(x, e). nat (1023 - e))") auto

declare binade_up.simps [simp del]

function binade_down :: "rat \<Rightarrow> int \<Rightarrow> int" where
  "binade_down x e = (if - 1022 < e \<and> x < 2 powi e then binade_down x (e - 1) else e)"
  by pat_completeness auto
termination
  by (relation "measure (\<lambda>(x, e). nat (e + 1022))") auto

declare binade_down.simps [simp del]

definition binade :: "rat \<Rightarrow> int" where
  "binade x = (if 1 \<le> x then binade_up x 0 else binade_down x 0)"

definition round_even :: "rat \<Rightarrow> int" where
  "round_even y =
     (let f = \<lfloor>y\<rfloor>; d = y - of_int f
      in if d < 1 / 2 then f else if 1 / 2 < d then f + 1 else if even f then f else f + 1)"

text \<open>A rounded magnitude of \<open>huge\<close> or more overflows to an infinity.\<close>

definition huge :: rat where
  "huge = 2 powi 1024"

definition round_double :: "rat \<Rightarrow> number" where
  "round_double x =
     (if x = 0 then Finite 0
      else
        (let a = \<bar>x\<bar>; q = 2 powi (binade a - 52); m = of_int (round_even (a / q)) * q
         in if huge \<le> m then (if 0 < x then PosInf else NegInf)
            else Finite (if 0 < x then m else - m)))"

text \<open>A decimal literal or JSON number denotes the nearest double.\<close>

definition decimal :: "rat \<Rightarrow> number" where
  "decimal x = round_double x"

text \<open>The operators \<open>+\<close>, unary and binary \<open>-\<close>, \<open>*\<close>, \<open><=\<close>, \<open>>\<close> and \<open>Math.abs\<close> on numbers.\<close>

fun js_add :: "number \<Rightarrow> number \<Rightarrow> number" where
  "js_add (Finite a) (Finite b) = round_double (a + b)"
| "js_add NaN y = NaN"
| "js_add x NaN = NaN"
| "js_add PosInf NegInf = NaN"
| "js_add NegInf PosInf = NaN"
| "js_add PosInf y = PosInf"
| "js_add NegInf y = NegInf"
| "js_add (Finite a) y = y"

fun js_neg :: "number \<Rightarrow> number" where
  "js_neg (Finite a) = Finite (- a)"
| "js_neg PosInf = NegInf"
| "js_neg NegInf = PosInf"
| "js_neg NaN = NaN"

definition js_sub :: "number \<Rightarrow> number \<Rightarrow> number" where
  "js_sub x y = js_add x (js_neg y)"

text \<open>The sign of a number: 1, 0 or -1 (NaN has none and is handled before).\<close>

fun js_sign :: "number \<Rightarrow> int" where
  "js_sign (Finite a) = (if 0 < a then 1 else if a < 0 then - 1 else 0)"
| "js_sign PosInf = 1"
| "js_sign NegInf = - 1"
| "js_sign NaN = 0"

fun js_mul :: "number \<Rightarrow> number \<Rightarrow> number" where
  "js_mul (Finite a) (Finite b) = round_double (a * b)"
| "js_mul NaN y = NaN"
| "js_mul x NaN = NaN"
| "js_mul x y =
     (if js_sign x * js_sign y = 0 then NaN
      else if 0 < js_sign x * js_sign y then PosInf else NegInf)"

fun js_le :: "number \<Rightarrow> number \<Rightarrow> bool" where
  "js_le (Finite a) (Finite b) = (a \<le> b)"
| "js_le NaN y = False"
| "js_le x NaN = False"
| "js_le NegInf y = True"
| "js_le x PosInf = True"
| "js_le x y = False"

fun js_gt :: "number \<Rightarrow> number \<Rightarrow> bool" where
  "js_gt (Finite a) (Finite b) = (a > b)"
| "js_gt NaN y = False"
| "js_gt x NaN = False"
| "js_gt PosInf PosInf = False"
| "js_gt PosInf y = True"
| "js_gt NegInf y = False"
| "js_gt (Finite a) NegInf = True"
| "js_gt (Finite a) y = False"

fun js_abs :: "number \<Rightarrow> number" where
  "js_abs (Finite a) = Finite \<bar>a\<bar>"
| "js_abs NaN = NaN"
| "js_abs x = PosInf"

text \<open>Truthiness of a number: 0 and NaN are falsy.\<close>

definition truthy_number :: "number \<Rightarrow> bool" where
  "truthy_number x = (x \<noteq> Finite 0 \<and> x \<noteq> NaN)"

section \<open>Won-prize lifecycle (PrizeWinning.js)\<close>

text \<open>
  The \<open>beforeUpdate\<close> hook, run by every \<open>save()\<close>. \<open>prev\<close> is the row as last
  saved, so \<open>changed('status')\<close> compares against it.
\<close>

definition beforeUpdate :: "date \<Rightarrow> prize_winning \<Rightarrow> prize_winning \<Rightarrow> prize_winning" where
  "beforeUpdate now prev pw =
     (let pw1 =
        (if pw_status pw \<noteq> pw_status prev then
           (case pw_status pw of
              Applied \<Rightarrow> (if pw_applied_date pw = None then pw\<lparr>pw_applied_date := Some now\<rparr> else pw)
            | Redeemed \<Rightarrow> (if pw_redeemed_date pw = None then pw\<lparr>pw_redeemed_date := Some now\<rparr> else pw)
            | Cancelled \<Rightarrow> (if pw_cancelled_date pw = None then pw\<lparr>pw_cancelled_date := Some now\<rparr> else pw)
            | _ \<Rightarrow> pw)
         else pw)
      in if pw_verified pw1 \<noteq> pw_verified prev \<and> pw_verified pw1 \<and> pw_verified_date pw1 = None
         then pw1\<lparr>pw_verified_date := Some now\<rparr> else pw1)"

definition save :: "date \<Rightarrow> prize_winning \<Rightarrow> prize_winning \<Rightarrow> prize_winning" where
  "save now prev pw = beforeUpdate now prev pw"

definition isExpired :: "date \<Rightarrow> prize_winning \<Rightarrow> bool" where
  "isExpired now pw = (case pw_expires_date pw of None \<Rightarrow> False | Some e \<Rightarrow> now > e)"

definition canBeApplied :: "date \<Rightarrow> prize_winning \<Rightarrow> error option" where
  "canBeApplied now pw =
     (if pw_status pw \<noteq> Pending then Some (AlreadyStatus (pw_status pw))
      else if isExpired now pw then Some PrizeExpired
      else if pw_requires_verification pw \<and> \<not> pw_verified pw then Some RequiresVerification
      else None)"

text \<open>
  \<open>Prize.applyToClient\<close>: dispatch on the prize type. Discount, cash, service and
  other prizes change nothing here.
\<close>

definition applyToClient :: "models \<Rightarrow> prize \<Rightarrow> string \<Rightarrow> world \<Rightarrow> (error + apply_result) \<times> world" where
  "applyToClient m p clientId w =
     (if \<not> pz_auto_apply p then (Inr Not_applied_manual, w)
      else if \<not> has_Client m then (Inr Not_applied_no_client_model, w)
      else if clientId \<notin> set (clients w) then (Inl ClientNotFound, w)
      else (Inr Applied_ok,
        (case pz_type p of
           Membership_days \<Rightarrow> w\<lparr>effects := effects w @ [ApplyMembershipDays clientId (pz_value p)]\<rparr>
         | Points \<Rightarrow> w\<lparr>effects := effects w @ [AddPoints clientId (pz_value p)]\<rparr>
         | Free_product \<Rightarrow> w\<lparr>effects := effects w @ [ApplyFreeProduct clientId]\<rparr>
         | _ \<Rightarrow> w)))"

definition incrementRedeemed :: "string \<Rightarrow> world \<Rightarrow> world" where
  "incrementRedeemed pid w =
     (case prizes w pid of
        None \<Rightarrow> w
      | Some p \<Rightarrow> w\<lparr>prizes := (prizes w)(pid \<mapsto> p\<lparr>pz_redeemed_count := pz_redeemed_count p + 1\<rparr>)\<rparr>)"

definition sendNotification ::
  "models \<Rightarrow> date \<Rightarrow> notification_type \<Rightarrow> world \<times> prize_winning \<Rightarrow> world \<times> prize_winning" where
  "sendNotification m now ty s =
     (case s of (w, pw) \<Rightarrow>
        if \<not> has_Notification m then (w, pw)
        else (w\<lparr>notifications := notifications w @ [(pw_client_id pw, ty)]\<rparr>,
              save now pw (pw\<lparr>pw_notification_sent := True, pw_notification_sent_date := Some now\<rparr>)))"

text \<open>
  \<open>PrizeWinning.prototype.apply\<close>. A throw leaves the mutations made so far in place,
  so every operation returns the state next to its outcome.
\<close>

definition apply_pw ::
  "models \<Rightarrow> date \<Rightarrow> string option \<Rightarrow> world \<times> prize_winning
     \<Rightarrow> (error + apply_result) \<times> (world \<times> prize_winning)" where
  "apply_pw m now processedByUserId s =
     (case s of (w, pw) \<Rightarrow>
        (case canBeApplied now pw of
           Some reason \<Rightarrow> (Inl reason, (w, pw))
         | None \<Rightarrow>
             if \<not> has_Prize m then (Inl CouldNotApply, (w, pw))
             else (case prizes w (pw_prize_id pw) of
                None \<Rightarrow> (Inl PrizeNotFound, (w, pw))
              | Some p \<Rightarrow>
                  (case applyToClient m p (pw_client_id pw) w of
                     (Inl e, w1) \<Rightarrow> (Inl e, (w1, pw))
                   | (Inr result, w1) \<Rightarrow>
                       if result = Applied_ok then
                         (let pw1 = save now pw
                                (pw\<lparr>pw_status := Applied, pw_auto_applied := True,
                                    pw_applied_date := Some now,
                                    pw_processed_by_user_id := processedByUserId\<rparr>);
                              w2 = incrementRedeemed (pw_prize_id pw) w1
                          in (Inr result,
                              (if \<not> pw_notification_sent pw1
                               then sendNotification m now Won (w2, pw1) else (w2, pw1))))
                       else (Inr result, (w1, pw))))))"

definition redeem ::
  "models \<Rightarrow> date \<Rightarrow> string \<Rightarrow> string option \<Rightarrow> world \<times> prize_winning
     \<Rightarrow> (error + unit) \<times> (world \<times> prize_winning)" where
  "redeem m now processedByUserId notes s =
     (case s of (w, pw) \<Rightarrow>
        if pw_status pw \<noteq> Pending then (Inl (CannotRedeem (pw_status pw)), (w, pw))
        else if isExpired now pw then (Inl HasExpired, (w, pw))
        else
          (let pw1 = save now pw
                 (pw\<lparr>pw_status := Redeemed, pw_redeemed_date := Some now,
                     pw_processed_by_user_id := Some processedByUserId,
                     pw_processing_notes := notes\<rparr>);
               w1 = (if has_Prize m then incrementRedeemed (pw_prize_id pw) w else w)
           in (Inr (), sendNotification m now N_redeemed (w1, pw1))))"

definition verify ::
  "models \<Rightarrow> date \<Rightarrow> string \<Rightarrow> world \<times> prize_winning
     \<Rightarrow> (error + unit) \<times> (world \<times> prize_winning)" where
  "verify m now verifiedByUserId s =
     (case s of (w, pw) \<Rightarrow>
        (let pw1 = save now pw
               (pw\<lparr>pw_verified := True, pw_verified_by_user_id := Some verifiedByUserId,
                   pw_verified_date := Some now\<rparr>)
         in if has_Prize m then
              (case prizes w (pw_prize_id pw) of
                 None \<Rightarrow> (Inr (), (w, pw1))
               | Some p \<Rightarrow>
                   if pz_auto_apply p then
                     (case apply_pw m now (Some verifiedByUserId) (w, pw1) of
                        (Inl e, s1) \<Rightarrow> (Inl e, s1)
                      | (Inr r, s1) \<Rightarrow> (Inr (), s1))
                   else (Inr (), (w, pw1)))
            else (Inr (), (w, pw1))))"

definition cancel ::
  "models \<Rightarrow> date \<Rightarrow> string \<Rightarrow> string \<Rightarrow> world \<times> prize_winning
     \<Rightarrow> (error + unit) \<times> (world \<times> prize_winning)" where
  "cancel m now cancelledByUserId reason s =
     (case s of (w, pw) \<Rightarrow>
        if pw_status pw \<in> set [Applied, Redeemed] then (Inl CannotCancel, (w, pw))
        else
          (let pw1 = save now pw
                 (pw\<lparr>pw_status := Cancelled, pw_cancelled_date := Some now,
                     pw_cancelled_by_user_id := Some cancelledByUserId,
                     pw_cancelled_reason := Some reason\<rparr>)
           in (Inr (), sendNotification m now N_cancelled (w, pw1))))"

text \<open>A caller's request on one won-prize row, and a run of such requests.\<close>

datatype op =
  Apply "string option"
  | Redeem string "string option"
  | Verify string
  | Cancel string string

fun exec :: "models \<Rightarrow> date \<times> op \<Rightarrow> world \<times> prize_winning \<Rightarrow> world \<times> prize_winning" where
  "exec m (now, Apply u) s = snd (apply_pw m now u s)"
| "exec m (now, Redeem u notes) s = snd (redeem m now u notes s)"
| "exec m (now, Verify u) s = snd (verify m now u s)"
| "exec m (now, Cancel u reason) s = snd (cancel m now u reason s)"

fun run :: "models \<Rightarrow> (date \<times> op) list \<Rightarrow> world \<times> prize_winning \<Rightarrow> world \<times> prize_winning" where
  "run m [] s = s"
| "run m (x # xs) s = run m xs (exec m x s)"

text \<open>
  What one operation may do to the status and to the log of side effects: a terminal
  status stays, \<open>Pending\<close> is never entered again, and a side effect is logged only on
  the way from \<open>Pending\<close> to \<open>Applied\<close>.
\<close>

definition step_ok :: "world \<times> prize_winning \<Rightarrow> world \<times> prize_winning \<Rightarrow> bool" where
  "step_ok s s1 \<longleftrightarrow>
     (pw_status (snd s) \<in> {Applied, Redeemed} \<longrightarrow> pw_status (snd s1) = pw_status (snd s)) \<and>
     (pw_status (snd s) \<noteq> Pending \<longrightarrow> pw_status (snd s1) \<noteq> Pending) \<and>
     (effects (fst s1) = effects (fst s) \<or>
        (\<exists>e. effects (fst s1) = effects (fst s) @ [e]) \<and>
        pw_status (snd s) = Pending \<and> pw_status (snd s1) = Applied)"

section \<open>Redemption codes and creation hooks (PrizeWinning.js)\<close>

definition chars :: string where
  "chars = ''ABCDEFGHJKLMNPQRSTUVWXYZ23456789''"

text \<open>\<open>s.charAt(i)\<close>: the empty string when \<open>i\<close> is out of range.\<close>

definition charAt :: "string \<Rightarrow> int \<Rightarrow> string" where
  "charAt s i = (if 0 \<le> i \<and> i < int (length s) then [s ! nat i] else [])"

text \<open>
  The random source is the sequence of values \<open>Math.random()\<close> returns; \<open>k\<close> counts the
  calls made so far. One candidate code takes eight draws.
\<close>

definition randomCode :: "(nat \<Rightarrow> rat) \<Rightarrow> nat \<Rightarrow> string" where
  "randomCode rnd k =
     concat (map (\<lambda>i. charAt chars \<lfloor>rnd (k + i) * of_nat (length chars)\<rfloor>) [0..<8])"

definition maxAttempts :: nat where
  "maxAttempts = 10"

text \<open>\<open>findOne({ where: { redemption_code: code } })\<close> finds a row.\<close>

definition existing :: "prize_winning list \<Rightarrow> string \<Rightarrow> bool" where
  "existing table code = (find (\<lambda>w. pw_redemption_code w = Some code) table \<noteq> None)"

text \<open>
  The \<open>do ... while (attempts < maxAttempts)\<close> loop; it returns the values of
  \<open>code\<close> and \<open>attempts\<close> on exit.
\<close>

function codeLoop :: "(nat \<Rightarrow> rat) \<Rightarrow> prize_winning list \<Rightarrow> nat \<Rightarrow> nat \<Rightarrow> string \<times> nat" where
  "codeLoop rnd table k attempts =
     (let code = randomCode rnd k
      in if \<not> existing table code then (code, attempts)
         else if attempts + 1 < maxAttempts then codeLoop rnd table (k + 8) (attempts + 1)
         else (code, attempts + 1))"
  by pat_completeness auto
termination
  by (relation "measure (\<lambda>(rnd, table, k, attempts). maxAttempts - attempts)") auto

declare codeLoop.simps [simp del]

definition generateRedemptionCode :: "(nat \<Rightarrow> rat) \<Rightarrow> prize_winning list \<Rightarrow> error + string" where
  "generateRedemptionCode rnd table =
     (case codeLoop rnd table 0 0 of
        (code, attempts) \<Rightarrow>
          if attempts \<ge> maxAttempts then Inl CodeGenerationExhausted else Inr code)"

text \<open>The \<open>j\<close>-th candidate code of a call collides with a stored code.\<close>

definition collides :: "(nat \<Rightarrow> rat) \<Rightarrow> prize_winning list \<Rightarrow> nat \<Rightarrow> bool" where
  "collides rnd table j \<longleftrightarrow>
     (\<exists>w \<in> set table. pw_redemption_code w = Some (randomCode rnd (8 * j)))"

text \<open>The \<open>beforeCreate\<close> hook: redemption code and expiration date of a new row.\<close>

definition beforeCreate ::
  "models \<Rightarrow> date \<Rightarrow> (nat \<Rightarrow> rat) \<Rightarrow> world \<Rightarrow> prize_winning list \<Rightarrow> prize_winning
     \<Rightarrow> error + prize_winning" where
  "beforeCreate m now rnd w table pw =
     (case (if pw_manual_redemption_required pw \<and> \<not> truthy (pw_redemption_code pw)
            then (case generateRedemptionCode rnd table of
                    Inl e \<Rightarrow> Inl e
                  | Inr code \<Rightarrow> Inr (pw\<lparr>pw_redemption_code := Some code\<rparr>))
            else Inr pw) of
        Inl e \<Rightarrow> Inl e
      | Inr pw1 \<Rightarrow>
          if pw_expires_date pw1 = None \<and> has_Prize m then
            (case prizes w (pw_prize_id pw1) of
               None \<Rightarrow> Inr pw1
             | Some p \<Rightarrow>
                 (case pz_expiration_days p of
                    None \<Rightarrow> Inr pw1
                  | Some d \<Rightarrow>
                      if d \<noteq> 0 then Inr (pw1\<lparr>pw_expires_date := Some (now + d * ms_per_day)\<rparr>)
                      else Inr pw1))
          else Inr pw1)"

definition incrementAwarded :: "prize \<Rightarrow> prize" where
  "incrementAwarded p = p\<lparr>pz_awarded_count := pz_awarded_count p + 1\<rparr>"

definition recordSpin :: "roulette \<Rightarrow> roulette" where
  "recordSpin r = r\<lparr>rl_total_spins := rl_total_spins r + 1,
                    rl_total_prizes_awarded := rl_total_prizes_awarded r + 1\<rparr>"

text \<open>The \<open>afterCreate\<close> hook: the prize's and the roulette's counters.\<close>

definition afterCreate :: "models \<Rightarrow> prize_winning \<Rightarrow> world \<Rightarrow> world" where
  "afterCreate m pw w =
     (let w1 = (if has_Prize m then
                  (case prizes w (pw_prize_id pw) of
                     None \<Rightarrow> w
                   | Some p \<Rightarrow> w\<lparr>prizes := (prizes w)(pw_prize_id pw \<mapsto> incrementAwarded p)\<rparr>)
                else w)
      in (case pw_roulette_id pw of
            None \<Rightarrow> w1
          | Some rid \<Rightarrow>
              if rid \<noteq> [] \<and> has_Roulette m then
                (case roulettes w1 rid of
                   None \<Rightarrow> w1
                 | Some r \<Rightarrow> w1\<lparr>roulettes := (roulettes w1)(rid \<mapsto> recordSpin r)\<rparr>)
              else w1))"

text \<open>\<open>PrizeWinning.create\<close>: the hooks around the insertion of the row.\<close>

definition create ::
  "models \<Rightarrow> date \<Rightarrow> (nat \<Rightarrow> rat) \<Rightarrow> prize_winning \<Rightarrow> world \<times> prize_winning list
     \<Rightarrow> (error + prize_winning) \<times> (world \<times> prize_winning list)" where
  "create m now rnd pw s =
     (case s of (w, table) \<Rightarrow>
        (case beforeCreate m now rnd w table pw of
           Inl e \<Rightarrow> (Inl e, (w, table))
         | Inr pw1 \<Rightarrow> (Inr pw1, (afterCreate m pw1 w, table @ [pw1]))))"

section \<open>Prize availability and limits (Prize.js)\<close>

definition isAvailable :: "prize \<Rightarrow> date \<Rightarrow> availability" where
  "isAvailable p now =
     (if \<not> pz_is_active p then Unavailable Deactivated
      else if pz_valid_from p > now then Unavailable NotYetValid
      else if (case pz_valid_until p of None \<Rightarrow> False | Some u \<Rightarrow> u < now)
        then Unavailable NoLongerValid
      else if (case pz_stock_quantity p of None \<Rightarrow> False | Some q \<Rightarrow> pz_awarded_count p \<ge> q)
        then Unavailable OutOfStock
      else Available)"

text \<open>
  \<open>PrizeWinning.count({ where: { prize_id, created_at: { [Op.gte]: since } } })\<close>.
\<close>

definition countPrizeSince :: "prize_winning list \<Rightarrow> string \<Rightarrow> date \<Rightarrow> int" where
  "countPrizeSince table pid since =
     int (length (filter (\<lambda>w. pw_prize_id w = pid \<and> pw_created_at w \<ge> since) table))"

definition checkLimits :: "models \<Rightarrow> prize \<Rightarrow> date \<Rightarrow> prize_winning list \<Rightarrow> availability" where
  "checkLimits m p now table =
     (if has_PrizeWinning m
         \<and> cap_reached (pz_max_per_day p) (countPrizeSince table (pz_id p) (startOfDay now))
      then Unavailable DailyLimitReached
      else if has_PrizeWinning m
         \<and> cap_reached (pz_max_per_week p) (countPrizeSince table (pz_id p) (startOfWeek now))
      then Unavailable WeeklyLimitReached
      else Available)"

text \<open>
  Modelled from the spec: the draw request handler is not among the sources (no route,
  controller or service calls \<open>isAvailable\<close> or creates a won-prize row). Following
  sections 2 and 4.1 of the specification, a draw of a fixed prize looks the prize up,
  refuses when \<open>isAvailable\<close> does, and otherwise creates the pending won-prize row,
  whose \<open>afterCreate\<close> hook increments \<open>awarded_count\<close>.
\<close>

datatype draw_error = DrawNotFound | DrawUnavailable reason | DrawFailed error

definition newWinning :: "date \<Rightarrow> string \<Rightarrow> string \<Rightarrow> string option \<Rightarrow> bool \<Rightarrow> prize_winning" where
  "newWinning now clientId prizeId rouletteId manual =
     \<lparr>pw_client_id = clientId, pw_prize_id = prizeId, pw_roulette_id = rouletteId,
      pw_status = Pending, pw_created_at = now, pw_applied_date = None,
      pw_redeemed_date = None, pw_expires_date = None, pw_auto_applied = False,
      pw_manual_redemption_required = manual, pw_redemption_code = None,
      pw_processed_by_user_id = None, pw_processing_notes = None,
      pw_notification_sent = False, pw_notification_sent_date = None,
      pw_requires_verification = False, pw_verified = False, pw_verified_by_user_id = None,
      pw_verified_date = None, pw_cancelled_reason = None, pw_cancelled_by_user_id = None,
      pw_cancelled_date = None\<rparr>"

record draw_request =
  dr_now :: date
  dr_random :: "nat \<Rightarrow> rat"
  dr_client_id :: string
  dr_prize_id :: string
  dr_roulette_id :: "string option"
  dr_manual :: bool

definition draw ::
  "models \<Rightarrow> draw_request \<Rightarrow> world \<times> prize_winning list
     \<Rightarrow> (draw_error + prize_winning) \<times> (world \<times> prize_winning list)" where
  "draw m rq s =
     (case prizes (fst s) (dr_prize_id rq) of
        None \<Rightarrow> (Inl DrawNotFound, s)
      | Some p \<Rightarrow>
          (case isAvailable p (dr_now rq) of
             Unavailable r \<Rightarrow> (Inl (DrawUnavailable r), s)
           | Available \<Rightarrow>
               (case create m (dr_now rq) (dr_random rq)
                       (newWinning (dr_now rq) (dr_client_id rq) (dr_prize_id rq)
                          (dr_roulette_id rq) (dr_manual rq)) s of
                  (Inl e, s1) \<Rightarrow> (Inl (DrawFailed e), s1)
                | (Inr pw, s1) \<Rightarrow> (Inr pw, s1))))"

fun draws :: "models \<Rightarrow> draw_request list \<Rightarrow> world \<times> prize_winning list
     \<Rightarrow> world \<times> prize_winning list" where
  "draws m [] s = s"
| "draws m (rq # rqs) s = draws m rqs (snd (draw m rq s))"

text \<open>The stock invariant: no prize with a stock ceiling has been awarded more often.\<close>

definition stock_respected :: "world \<Rightarrow> bool" where
  "stock_respected w \<longleftrightarrow>
     (\<forall>pid p q. prizes w pid = Some p \<and> pz_stock_quantity p = Some q \<longrightarrow> pz_awarded_count p \<le> q)"

section \<open>Roulette configuration and selection (Roulette.js)\<close>

text \<open>
  The \<open>isValidSectors\<close> validator of the \<open>sectors_config\<close> column. The sum is
  the one \<open>reduce\<close> computes, in double arithmetic from left to right;
  \<open>sector.probability || 0\<close> replaces a falsy weight by 0, and \<open>0.01\<close> is the double
  nearest to one hundredth.
\<close>

definition totalProbability :: "sector_obj list \<Rightarrow> number" where
  "totalProbability v =
     foldl (\<lambda>sum sector.
              js_add sum (if truthy_number (sc_probability (snd sector))
                          then sc_probability (snd sector) else Finite 0))
       (Finite 0) v"

fun checkSectors :: "sector_obj list \<Rightarrow> int \<Rightarrow> error option" where
  "checkSectors [] index = None"
| "checkSectors (sector # rest) index =
     (if \<not> truthy (sc_prize_id (snd sector)) \<or> \<not> truthy_number (sc_probability (snd sector))
         \<or> \<not> truthy (sc_color (snd sector))
      then Some (SectorIncomplete (index + 1))
      else checkSectors rest (index + 1))"

definition isValidSectors :: "sector_obj list \<Rightarrow> error option" where
  "isValidSectors v =
     (if js_gt (js_abs (js_sub (totalProbability v) (Finite 100))) (decimal (1 / 100))
      then Some SumNot100
      else checkSectors v 0)"

text \<open>\<open>Prize.findByPk(sector.prize_id)\<close>; a null key finds nothing.\<close>

definition findPrize :: "world \<Rightarrow> string option \<Rightarrow> prize option" where
  "findPrize w pid = (case pid of None \<Rightarrow> None | Some k \<Rightarrow> prizes w k)"

fun sectorPrizesExist :: "world \<Rightarrow> sector_obj list \<Rightarrow> error option" where
  "sectorPrizesExist w [] = None"
| "sectorPrizesExist w (sector # rest) =
     (if findPrize w (sc_prize_id (snd sector)) = None
      then Some (SectorPrizeNotFound (sc_prize_id (snd sector)))
      else sectorPrizesExist w rest)"

definition validateSectorsConfiguration :: "models \<Rightarrow> world \<Rightarrow> sector_obj list \<Rightarrow> error option" where
  "validateSectorsConfiguration m w cfg =
     (if has_Prize m then sectorPrizesExist w cfg else None)"

text \<open>
  What \<open>save()\<close> checks on a roulette: the column validator first, then the
  \<open>beforeSave\<close> hook, which runs \<open>validateSectorsConfiguration\<close> on a non-empty list.
  \<open>None\<close> means the configuration is accepted.
\<close>

definition validateOnSave :: "models \<Rightarrow> world \<Rightarrow> sector_obj list \<Rightarrow> error option" where
  "validateOnSave m w cfg =
     (case isValidSectors cfg of
        Some e \<Rightarrow> Some e
      | None \<Rightarrow> if length cfg > 0 then validateSectorsConfiguration m w cfg else None)"

text \<open>\<open>array.indexOf(x)\<close> on objects: the first position holding the same object.\<close>

fun indexFrom :: "sector_obj list \<Rightarrow> sector_obj \<Rightarrow> int \<Rightarrow> int" where
  "indexFrom [] x i = - 1"
| "indexFrom (y # ys) x i = (if fst y = fst x then i else indexFrom ys x (i + 1))"

definition indexOf :: "sector_obj list \<Rightarrow> sector_obj \<Rightarrow> int" where
  "indexOf xs x = indexFrom xs x 0"

record select_result =
  prize_id :: "string option"
  sector_index :: int
  sector_config :: sector_obj

text \<open>The \<open>for (const sector of this.sectors_config)\<close> loop of \<open>selectPrize\<close>.\<close>

fun walk :: "sector_obj list \<Rightarrow> number \<Rightarrow> number \<Rightarrow> sector_obj option" where
  "walk [] random cumulative = None"
| "walk (sector # rest) random cumulative =
     (if js_le random (js_add cumulative (sc_probability (snd sector))) then Some sector
      else walk rest random (js_add cumulative (sc_probability (snd sector))))"

text \<open>
  \<open>selectPrize\<close>; \<open>u\<close> is the double \<open>Math.random()\<close> returns, and the product
  with 100 is rounded as every double operation is.
\<close>

definition selectPrize :: "sector_obj list \<Rightarrow> rat \<Rightarrow> error + select_result" where
  "selectPrize sectors_config u =
     (if length sectors_config = 0 then Inl NoSectors
      else
        (let random = js_mul (Finite u) (Finite 100)
         in (case walk sectors_config random (Finite 0) of
               Some sector \<Rightarrow>
                 Inr \<lparr>prize_id = sc_prize_id (snd sector),
                      sector_index = indexOf sectors_config sector,
                      sector_config = sector\<rparr>
             | None \<Rightarrow>
                 (let lastSector = sectors_config ! (length sectors_config - 1)
                  in Inr \<lparr>prize_id = sc_prize_id (snd lastSector),
                          sector_index = int (length sectors_config) - 1,
                          sector_config = lastSector\<rparr>))))"

text \<open>
  The running total of the weights up to and including sector \<open>i\<close>, and the total of
  all weights, added as JavaScript adds them: from 0, left to right, in doubles.
\<close>

definition cumulative :: "sector_obj list \<Rightarrow> nat \<Rightarrow> number" where
  "cumulative cfg i =
     foldl js_add (Finite 0) (map (\<lambda>s. sc_probability (snd s)) (take (Suc i) cfg))"

definition double_sum :: "sector_obj list \<Rightarrow> number" where
  "double_sum cfg = foldl js_add (Finite 0) (map (\<lambda>s. sc_probability (snd s)) cfg)"





section \<open>Scan gate (QRCode.js)\<close>

definition isValid :: "qr_code \<Rightarrow> date \<Rightarrow> error option" where
  "isValid q now =
     (if \<not> qr_is_active q then Some CodeDeactivated
      else if qr_current_uses q \<ge> qr_max_uses q then Some CodeExhausted
      else if qr_valid_from q > now then Some CodeNotYetValid
      else if (case qr_valid_until q of None \<Rightarrow> False | Some u \<Rightarrow> u < now) then Some CodeExpired
      else None)"

definition isValidTime :: "qr_code \<Rightarrow> date \<Rightarrow> bool" where
  "isValidTime q t =
     (if \<not> qr_time_restricted q then True
      else hoursOk (qr_allowed_hours_start q) (qr_allowed_hours_end q) (timeString t))"

record use_result =
  success :: bool
  uses_remaining :: int
  ur_prize_category :: prize_category
  ur_metadata :: "string option"

text \<open>
  \<open>QRCode.prototype.use\<close>: both throws come before the first assignment, so a failed
  use leaves the gate as it was.
\<close>

definition use :: "qr_code \<Rightarrow> string \<Rightarrow> date \<Rightarrow> error + (use_result \<times> qr_code)" where
  "use q clientId now =
     (case isValid q now of
        Some e \<Rightarrow> Inl e
      | None \<Rightarrow>
          if \<not> isValidTime q now then Inl CodeWrongHour
          else
            (let q1 = q\<lparr>qr_current_uses := qr_current_uses q + 1,
                        qr_scan_count := qr_scan_count q + 1,
                        qr_last_scan_date := Some now\<rparr>;
                 q2 = (if qr_current_uses q1 \<ge> qr_max_uses q1
                       then q1\<lparr>qr_is_used := True, qr_used_date := Some now,
                               qr_used_by_client_id := Some clientId\<rparr>
                       else q1)
             in Inr (\<lparr>success = True,
                      uses_remaining = qr_max_uses q2 - qr_current_uses q2,
                      ur_prize_category = qr_prize_category q2,
                      ur_metadata = qr_metadata q2\<rparr>, q2)))"

text \<open>A run of scans of one gate: the outcome of each, and the gate at the end.\<close>

fun scans :: "qr_code \<Rightarrow> (string \<times> date) list \<Rightarrow> (error + use_result) list \<times> qr_code" where
  "scans q [] = ([], q)"
| "scans q ((clientId, now) # rest) =
     (case use q clientId now of
        Inl e \<Rightarrow> (case scans q rest of (rs, q') \<Rightarrow> (Inl e # rs, q'))
      | Inr (res, q1) \<Rightarrow> (case scans q1 rest of (rs, q') \<Rightarrow> (Inr res # rs, q')))"

text \<open>
  The gate accepts a scan at \<open>t\<close> as far as everything but the use counter goes: it
  is active, \<open>t\<close> lies in its validity window and in its allowed hours.
\<close>

definition open_at :: "qr_code \<Rightarrow> date \<Rightarrow> bool" where
  "open_at q t \<longleftrightarrow>
     qr_is_active q \<and> qr_valid_from q \<le> t
     \<and> (case qr_valid_until q of None \<Rightarrow> True | Some u \<Rightarrow> t \<le> u)
     \<and> isValidTime q t"

section \<open>Sample data\<close>

definition all_models :: models where
  "all_models = \<lparr>has_Prize = True, has_Client = True, has_Notification = True,
     has_PrizeWinning = True, has_Roulette = True\<rparr>"

definition points_prize :: prize where
  "points_prize = \<lparr>pz_id = ''p1'', pz_type = Points, pz_value = 50, pz_is_active = True,
     pz_stock_quantity = Some 5, pz_awarded_count = 0, pz_redeemed_count = 0,
     pz_valid_from = 0, pz_valid_until = None, pz_auto_apply = True,
     pz_expiration_days = None, pz_max_per_day = Some 1, pz_max_per_week = None\<rparr>"

definition gym_world :: world where
  "gym_world = \<lparr>prizes = [''p1'' \<mapsto> points_prize], roulettes = Map.empty,
     clients = [''c1''], effects = [], notifications = []\<rparr>"

definition pending_winning :: prize_winning where
  "pending_winning = newWinning 1000 ''c1'' ''p1'' None False"

definition sector_of :: "string \<Rightarrow> number \<Rightarrow> sector" where
  "sector_of pid p = \<lparr>sc_prize_id = Some pid, sc_probability = p, sc_color = Some ''#1E3A8A''\<rparr>"

definition sample_qr :: qr_code where
  "sample_qr = \<lparr>qr_is_active = True, qr_is_used = False, qr_used_date = None,
     qr_used_by_client_id = None, qr_prize_category = Premium, qr_valid_from = 0,
     qr_valid_until = None, qr_max_uses = 3, qr_current_uses = 0,
     qr_time_restricted = False, qr_allowed_hours_start = None,
     qr_allowed_hours_end = None, qr_metadata = None, qr_scan_count = 0,
     qr_last_scan_date = None\<rparr>"

definition sample_draw :: "date \<Rightarrow> string \<Rightarrow> draw_request" where
  "sample_draw t clientId = \<lparr>dr_now = t, dr_random = (\<lambda>k. 0), dr_client_id = clientId,
     dr_prize_id = ''p1'', dr_roulette_id = None, dr_manual = False\<rparr>"

text \<open>
  A random source that repeats: its first eight draws pick the letter A, as they did
  for the code already stored in \<open>stored_table\<close>, the following ones the letter B.
\<close>

definition repeating_source :: "nat \<Rightarrow> rat" where
  "repeating_source k = (if k < 8 then 0 else 1 / 32)"

definition stored_table :: "prize_winning list" where
  "stored_table = [(newWinning 1000 ''c1'' ''p1'' None True)\<lparr>pw_redemption_code := Some ''AAAAAAAA''\<rparr>]"

definition negative_config :: "sector_obj list" where
  "negative_config = [(0, sector_of ''p1'' (Finite 150)), (1, sector_of ''p1'' (Finite (- 50)))]"

definition zero_config :: "sector_obj list" where
  "zero_config = [(0, sector_of ''p1'' (Finite 100)), (1, sector_of ''p1'' (Finite 0))]"

definition fair_config :: "sector_obj list" where
  "fair_config = [(0, sector_of ''p1'' (Finite 50)), (1, sector_of ''p1'' (Finite 30)),
                  (2, sector_of ''p1'' (Finite 20))]"

text \<open>
  Weights written with two decimals, as the JSON of a configuration has them; none of
  10.34, 82.92, 6.74, 0.4 and 99.61 is a double.
\<close>

definition decimal_config :: "sector_obj list" where
  "decimal_config = [(0, sector_of ''p1'' (decimal (517 / 50))),
                     (1, sector_of ''p1'' (decimal (2073 / 25))),
                     (2, sector_of ''p1'' (decimal (337 / 50)))]"

definition near_config :: "sector_obj list" where
  "near_config = [(0, sector_of ''p1'' (decimal (2 / 5))),
                  (1, sector_of ''p1'' (decimal (9961 / 100)))]"


text \<open>A value \<open>Math.random()\<close> can return: a multiple of \<open>2 powi - 52\<close> below 1.\<close>

definition sample_random :: rat where
  "sample_random = 4200057012485725 / 4503599627370496"

section \<open>Properties of double arithmetic\<close>

lemma binade_up_bounds:
  "e0 \<le> 1023 \<Longrightarrow> 2 powi e0 \<le> x \<Longrightarrow>
     e0 \<le> binade_up x e0 \<and> binade_up x e0 \<le> 1023 \<and> 2 powi (binade_up x e0) \<le> x \<and>
     (binade_up x e0 < 1023 \<longrightarrow> x < 2 powi (binade_up x e0 + 1))"
proof (induction x e0 rule: binade_up.induct)
  case (1 x e)
  show ?case
  proof (cases "e < 1023 \<and> 2 powi (e + 1) \<le> x")
    case True
    then have eq: "binade_up x e = binade_up x (e + 1)"
      by (simp add: binade_up.simps[of x e])
    from True have "e + 1 \<le> 1023" by simp
    from "1.IH"[OF True this] True show ?thesis unfolding eq by simp
  next
    case False
    then have eq: "binade_up x e = e" using binade_up.simps[of x e] by auto
    from False "1.prems" show ?thesis unfolding eq by auto
  qed
qed

lemma binade_down_bounds:
  "- 1022 \<le> e0 \<Longrightarrow> x < 2 powi (e0 + 1) \<Longrightarrow>
     - 1022 \<le> binade_down x e0 \<and> binade_down x e0 \<le> e0 \<and>
     x < 2 powi (binade_down x e0 + 1) \<and>
     (- 1022 < binade_down x e0 \<longrightarrow> 2 powi (binade_down x e0) \<le> x)"
proof (induction x e0 rule: binade_down.induct)
  case (1 x e)
  show ?case
  proof (cases "- 1022 < e \<and> x < 2 powi e")
    case True
    then have eq: "binade_down x e = binade_down x (e - 1)"
      by (simp add: binade_down.simps[of x e])
    from True have a: "- 1022 \<le> e - 1" and b: "x < 2 powi (e - 1 + 1)" by simp_all
    from "1.IH"[OF True a b] show ?thesis unfolding eq by simp
  next
    case False
    then have eq: "binade_down x e = e" using binade_down.simps[of x e] by auto
    from False "1.prems" show ?thesis unfolding eq by auto
  qed
qed

lemma binade_bounds:
  "- 1022 \<le> binade x \<and> binade x \<le> 1023 \<and>
   (- 1022 < binade x \<longrightarrow> 2 powi (binade x) \<le> x) \<and>
   (binade x < 1023 \<longrightarrow> x < 2 powi (binade x + 1))"
proof (cases "1 \<le> x")
  case True
  then have "2 powi 0 \<le> x" by simp
  from binade_up_bounds[OF _ this] True show ?thesis by (simp add: binade_def)
next
  case False
  then have "x < 2 powi (0 + 1)" by simp
  from binade_down_bounds[OF _ this] False show ?thesis by (simp add: binade_def)
qed

lemma powi2_mono: "a \<le> b \<Longrightarrow> (2::rat) powi a \<le> 2 powi b"
  by (rule power_int_increasing) simp_all

lemma binade_unique:
  assumes "- 1022 \<le> e" and "e \<le> 1023"
    and lo: "- 1022 < e \<longrightarrow> 2 powi e \<le> x"
    and hi: "e < 1023 \<longrightarrow> x < 2 powi (e + 1)"
  shows "binade x = e"
proof (rule ccontr)
  assume ne: "binade x \<noteq> e"
  note b = binade_bounds[of x]
  show False
  proof (cases "binade x < e")
    case True
    with assms b have "x < 2 powi (binade x + 1)" and "2 powi e \<le> x" by auto
    moreover from True have "(2::rat) powi (binade x + 1) \<le> 2 powi e"
      by (intro powi2_mono) simp
    ultimately show False by simp
  next
    case False
    with ne have gt: "e < binade x" by simp
    with assms b have "x < 2 powi (e + 1)" and "2 powi (binade x) \<le> x" by auto
    moreover from gt have "(2::rat) powi (e + 1) \<le> 2 powi (binade x)"
      by (intro powi2_mono) simp
    ultimately show False by simp
  qed
qed

lemma round_even_nearest:
  assumes "of_int n - 1 / 2 < y" and "y < of_int n + 1 / 2"
  shows "round_even y = n"
proof (cases "of_int n \<le> y")
  case True
  with assms have f: "\<lfloor>y\<rfloor> = n" by (intro floor_unique) simp_all
  with assms show ?thesis by (simp add: round_even_def Let_def)
next
  case False
  with assms have f: "\<lfloor>y\<rfloor> = n - 1" by (intro floor_unique) simp_all
  with assms False show ?thesis by (simp add: round_even_def Let_def)
qed

lemma round_double_at:
  assumes nz: "x \<noteq> 0" and e: "- 1022 \<le> e" "e \<le> 1022"
    and lo: "- 1022 < e \<longrightarrow> 2 powi e \<le> \<bar>x\<bar>"
    and hi: "\<bar>x\<bar> < 2 powi (e + 1)"
    and n: "of_int n - 1 / 2 < \<bar>x\<bar> / 2 powi (e - 52)" "\<bar>x\<bar> / 2 powi (e - 52) < of_int n + 1 / 2"
  shows "round_double x = Finite (if 0 < x then of_int n * 2 powi (e - 52)
                                  else - (of_int n * 2 powi (e - 52)))"
proof -
  let ?q = "(2::rat) powi (e - 52)"
  have q: "0 < ?q" by simp
  from e lo hi have b: "binade \<bar>x\<bar> = e" by (intro binade_unique) simp_all
  from n have r: "round_even (\<bar>x\<bar> / ?q) = n" by (rule round_even_nearest)
  have split: "(2::rat) powi (e + 1) = 2 ^ 53 * ?q"
  proof -
    have "e + 1 = 53 + (e - 52)" by simp
    then have "(2::rat) powi (e + 1) = 2 powi (53 + (e - 52))" by (rule arg_cong)
    also have "\<dots> = 2 powi 53 * ?q" by (subst power_int_add) simp_all
    finally show ?thesis by simp
  qed
  from hi split q have "\<bar>x\<bar> / ?q < 2 ^ 53" by (simp add: field_simps)
  with n(1) have "(of_int n :: rat) < 2 ^ 53 + 1 / 2" by simp
  then have "(of_int n :: rat) < of_int (2 ^ 53 + 1)" by simp
  then have "n < 2 ^ 53 + 1" by (simp only: of_int_less_iff)
  then have "n \<le> 2 ^ 53" by simp
  then have "(of_int n :: rat) \<le> 2 ^ 53" by (metis of_int_le_iff of_int_numeral of_int_power)
  with q have "of_int n * ?q \<le> 2 ^ 53 * ?q" by (simp add: mult_right_mono)
  also have "\<dots> = 2 powi (e + 1)" by (simp only: split)
  also have "\<dots> \<le> 2 powi 1023" using e by (intro powi2_mono) simp
  also have "\<dots> < 2 powi 1024" by (rule power_int_strict_increasing) simp_all
  finally have "\<not> huge \<le> of_int n * ?q" by (simp add: huge_def)
  with nz b r show ?thesis by (simp only: round_double_def Let_def if_False)
qed

lemma round_even_bounds:
  "of_int (round_even y) \<le> y + 1 / 2 \<and> y - 1 / 2 \<le> of_int (round_even y)"
proof -
  define f where "f = \<lfloor>y\<rfloor>"
  have "of_int f \<le> y" and "y < of_int f + 1" unfolding f_def by linarith+
  then show ?thesis
    unfolding round_even_def Let_def f_def [symmetric]
    by (auto; linarith)
qed

lemma round_even_nonneg: "0 \<le> y \<Longrightarrow> 0 \<le> round_even y"
  by (auto simp: round_even_def Let_def)

lemma round_even_less:
  assumes "y + 1 / 2 < of_int k + 1"
  shows "round_even y \<le> k"
proof -
  from round_even_bounds[of y] assms have "(of_int (round_even y) :: rat) < of_int (k + 1)"
    by simp
  then have "round_even y < k + 1" by (simp only: of_int_less_iff)
  then show ?thesis by simp
qed

lemma round_double_pos:
  "0 < x \<Longrightarrow> round_double x =
     (if huge \<le> of_int (round_even (x / 2 powi (binade x - 52))) * 2 powi (binade x - 52)
      then PosInf
      else Finite (of_int (round_even (x / 2 powi (binade x - 52))) * 2 powi (binade x - 52)))"
  by (simp add: round_double_def Let_def)

lemma below_100_finite:
  assumes "m < 100"
  shows "\<not> huge \<le> (m :: rat)"
proof -
  have "(100::rat) \<le> 2 powi 7" by simp
  also have "\<dots> \<le> 2 powi 1024" by (intro powi2_mono) simp
  finally show ?thesis using assms by (simp add: huge_def del: power_int_numeral)
qed

lemma double_below_one:
  assumes d: "round_double u = Finite u" and "0 \<le> u" and "u < 1"
  shows "u \<le> 1 - 1 / 2 ^ 53"
proof (cases "u = 0")
  case True
  then show ?thesis by simp
next
  case False
  with assms have pos: "0 < u" by simp
  note b = binade_bounds[of u]
  let ?e = "binade u"
  let ?q = "(2::rat) powi (?e - 52)"
  let ?N = "round_even (u / ?q)"
  have e: "?e \<le> - 1"
  proof (rule ccontr)
    assume "\<not> ?e \<le> - 1"
    then have "0 \<le> ?e" by simp
    with b have "2 powi ?e \<le> u" by simp
    moreover from \<open>0 \<le> ?e\<close> have "(2::rat) powi 0 \<le> 2 powi ?e" by (rule powi2_mono)
    ultimately show False using \<open>u < 1\<close> by simp
  qed
  show ?thesis
  proof (cases "?e = - 1")
    case True
    have q: "?q = 1 / 2 ^ 53" by (simp add: True power_int_minus_divide)
    define N where "N = ?N"
    from d pos have "u = of_int ?N * ?q"
      by (auto simp: round_double_pos split: if_splits)
    then have u: "u = of_int N * (1 / 2 ^ 53)" by (simp only: q N_def)
    with \<open>u < 1\<close> have "(of_int N :: rat) < 2 ^ 53" by (simp add: field_simps)
    then have "(of_int N :: rat) < of_int (2 ^ 53)" by simp
    then have "N < 2 ^ 53" by (simp only: of_int_less_iff)
    then have "N \<le> 2 ^ 53 - 1" by simp
    then have "(of_int N :: rat) \<le> of_int (2 ^ 53 - 1)" by (simp only: of_int_le_iff)
    then have "(of_int N :: rat) \<le> 2 ^ 53 - 1" by simp
    then have "of_int N * (1 / 2 ^ 53) \<le> (2 ^ 53 - 1) * (1 / 2 ^ 53 :: rat)"
      by (intro mult_right_mono) simp_all
    then have "u \<le> (2 ^ 53 - 1) * (1 / 2 ^ 53)" by (simp only: u)
    then show ?thesis by simp
  next
    case False
    with e have e2: "?e + 1 \<le> - 1" by simp
    from e b have "u < 2 powi (?e + 1)" by simp
    also from e2 have "(2::rat) powi (?e + 1) \<le> 2 powi (- 1)" by (rule powi2_mono)
    finally have "u < 1 / 2" by (simp add: power_int_minus_divide)
    then show ?thesis by simp
  qed
qed

lemma times_100_below_100:
  assumes "0 \<le> x" and "x \<le> 100 - 100 / 2 ^ 53"
  shows "\<exists>r. round_double x = Finite r \<and> 0 \<le> r \<and> r < 100"
proof (cases "x = 0")
  case True
  then show ?thesis by (simp add: round_double_def)
next
  case False
  with assms have pos: "0 < x" by simp
  note b = binade_bounds[of x]
  let ?e = "binade x"
  let ?q = "(2::rat) powi (?e - 52)"
  let ?N = "round_even (x / ?q)"
  have q: "0 < ?q" by simp
  have e: "?e \<le> 6"
  proof (rule ccontr)
    assume "\<not> ?e \<le> 6"
    then have "7 \<le> ?e" by simp
    with b have "2 powi ?e \<le> x" by simp
    moreover from \<open>7 \<le> ?e\<close> have "(2::rat) powi 7 \<le> 2 powi ?e" by (rule powi2_mono)
    ultimately show False using assms(2) by simp
  qed
  from pos q have "0 \<le> x / ?q" by simp
  then have N0: "0 \<le> ?N" by (rule round_even_nonneg)
  have lt: "of_int ?N * ?q < 100"
  proof (cases "?e = 6")
    case True
    have qv: "?q = 1 / 2 ^ 46" by (simp add: True power_int_minus_divide)
    define y where "y = x / ?q"
    have "y = x * 2 ^ 46" by (simp add: y_def qv)
    with assms(2) have "y \<le> (100 - 100 / 2 ^ 53) * 2 ^ 46" by simp
    then have "y + 1 / 2 < of_int (100 * 2 ^ 46 - 1) + 1" by simp
    then have "round_even y \<le> 100 * 2 ^ 46 - 1" by (rule round_even_less)
    then have "?N \<le> 100 * 2 ^ 46 - 1" by (simp only: y_def)
    then have "(of_int ?N :: rat) \<le> of_int (100 * 2 ^ 46 - 1)" by (simp only: of_int_le_iff)
    then have "of_int ?N * (1 / 2 ^ 46) \<le> of_int (100 * 2 ^ 46 - 1) * (1 / 2 ^ 46 :: rat)"
      by (intro mult_right_mono) simp_all
    also have "\<dots> < 100" by simp
    finally show ?thesis by (simp only: qv)
  next
    case False
    with e have e5: "?e + 1 \<le> 6" by simp
    have split: "(2::rat) powi (?e + 1) = 2 ^ 53 * ?q"
    proof -
      have "?e + 1 = 53 + (?e - 52)" by simp
      then have "(2::rat) powi (?e + 1) = 2 powi (53 + (?e - 52))" by (rule arg_cong)
      also have "\<dots> = 2 powi 53 * ?q" by (subst power_int_add) simp_all
      finally show ?thesis by simp
    qed
    from e b have "x < 2 powi (?e + 1)" by simp
    with split q have "x / ?q < 2 ^ 53" by (simp add: field_simps)
    then have "x / ?q + 1 / 2 < of_int (2 ^ 53) + 1" by simp
    then have "?N \<le> 2 ^ 53" by (rule round_even_less)
    then have "(of_int ?N :: rat) \<le> of_int (2 ^ 53)" by (simp only: of_int_le_iff)
    then have "(of_int ?N :: rat) \<le> 2 ^ 53" by simp
    with q have "of_int ?N * ?q \<le> 2 ^ 53 * ?q" by (simp add: mult_right_mono)
    also have "\<dots> = 2 powi (?e + 1)" by (simp only: split)
    also from e5 have "\<dots> \<le> 2 powi 6" by (rule powi2_mono)
    also have "\<dots> < 100" by simp
    finally show ?thesis .
  qed
  from N0 q have ge: "0 \<le> of_int ?N * ?q" by simp
  from below_100_finite[OF lt] pos
  have "round_double x = Finite (of_int ?N * ?q)" by (simp only: round_double_pos if_False)
  with lt ge show ?thesis by blast
qed

lemma random_times_100:
  assumes "round_double u = Finite u" and "0 \<le> u" and "u < 1"
  shows "\<exists>r. round_double (u * 100) = Finite r \<and> 0 \<le> r \<and> r < 100"
proof -
  from double_below_one[OF assms] have "u * 100 \<le> 100 - 100 / 2 ^ 53" by simp
  moreover from assms have "0 \<le> u * 100" by simp
  ultimately show ?thesis by (intro times_100_below_100)
qed

text \<open>The doubles of the sample configurations and their sums.\<close>

lemma double_10_34: "round_double (517 / 50) = Finite (2910451259188183 / 281474976710656)"
proof -
  have "round_double (517 / 50) =
      Finite (if 0 < (517 / 50 :: rat) then of_int 5820902518376366 * 2 powi (3 - 52)
              else - (of_int 5820902518376366 * 2 powi (3 - 52)))"
    by (rule round_double_at) simp_all
  then show ?thesis by simp
qed

lemma double_82_92: "round_double (2073 / 25) = Finite (5834976267211899 / 70368744177664)"
proof -
  have "round_double (2073 / 25) =
      Finite (if 0 < (2073 / 25 :: rat) then of_int 5834976267211899 * 2 powi (6 - 52)
              else - (of_int 5834976267211899 * 2 powi (6 - 52)))"
    by (rule round_double_at) simp_all
  then show ?thesis by simp
qed

lemma double_10_34_fixed: "round_double (2910451259188183 / 281474976710656) = Finite (2910451259188183 / 281474976710656)"
proof -
  have "round_double (2910451259188183 / 281474976710656) =
      Finite (if 0 < (2910451259188183 / 281474976710656 :: rat) then of_int 5820902518376366 * 2 powi (3 - 52)
              else - (of_int 5820902518376366 * 2 powi (3 - 52)))"
    by (rule round_double_at) simp_all
  then show ?thesis by simp
qed

lemma double_10_34_plus_82_92: "round_double (26250356328035779 / 281474976710656) = Finite (6562589082008945 / 70368744177664)"
proof -
  have "round_double (26250356328035779 / 281474976710656) =
      Finite (if 0 < (26250356328035779 / 281474976710656 :: rat) then of_int 6562589082008945 * 2 powi (6 - 52)
              else - (of_int 6562589082008945 * 2 powi (6 - 52)))"
    by (rule round_double_at) simp_all
  then show ?thesis by simp
qed

lemma sample_random_fixed: "round_double (4200057012485725 / 4503599627370496) = Finite (4200057012485725 / 4503599627370496)"
proof -
  have "round_double (4200057012485725 / 4503599627370496) =
      Finite (if 0 < (4200057012485725 / 4503599627370496 :: rat) then of_int 8400114024971450 * 2 powi (-1 - 52)
              else - (of_int 8400114024971450 * 2 powi (-1 - 52)))"
    by (rule round_double_at) simp_all
  then show ?thesis by simp
qed

lemma sample_random_times_100: "round_double (105001425312143125 / 1125899906842624) = Finite (6562589082008945 / 70368744177664)"
proof -
  have "round_double (105001425312143125 / 1125899906842624) =
      Finite (if 0 < (105001425312143125 / 1125899906842624 :: rat) then of_int 6562589082008945 * 2 powi (6 - 52)
              else - (of_int 6562589082008945 * 2 powi (6 - 52)))"
    by (rule round_double_at) simp_all
  then show ?thesis by simp
qed

lemma double_0_01: "round_double (1 / 100) = Finite (5764607523034235 / 576460752303423488)"
proof -
  have "round_double (1 / 100) =
      Finite (if 0 < (1 / 100 :: rat) then of_int 5764607523034235 * 2 powi (-7 - 52)
              else - (of_int 5764607523034235 * 2 powi (-7 - 52)))"
    by (rule round_double_at) simp_all
  then show ?thesis by simp
qed

lemma double_150_fixed: "round_double (150) = Finite (150)"
proof -
  have "round_double (150) =
      Finite (if 0 < (150 :: rat) then of_int 5277655813324800 * 2 powi (7 - 52)
              else - (of_int 5277655813324800 * 2 powi (7 - 52)))"
    by (rule round_double_at) simp_all
  then show ?thesis by simp
qed

lemma double_100_fixed: "round_double (100) = Finite (100)"
proof -
  have "round_double (100) =
      Finite (if 0 < (100 :: rat) then of_int 7036874417766400 * 2 powi (6 - 52)
              else - (of_int 7036874417766400 * 2 powi (6 - 52)))"
    by (rule round_double_at) simp_all
  then show ?thesis by simp
qed

lemma double_50_fixed: "round_double (50) = Finite (50)"
proof -
  have "round_double (50) =
      Finite (if 0 < (50 :: rat) then of_int 7036874417766400 * 2 powi (5 - 52)
              else - (of_int 7036874417766400 * 2 powi (5 - 52)))"
    by (rule round_double_at) simp_all
  then show ?thesis by simp
qed

lemma double_80_fixed: "round_double (80) = Finite (80)"
proof -
  have "round_double (80) =
      Finite (if 0 < (80 :: rat) then of_int 5629499534213120 * 2 powi (6 - 52)
              else - (of_int 5629499534213120 * 2 powi (6 - 52)))"
    by (rule round_double_at) simp_all
  then show ?thesis by simp
qed

lemma double_0_4: "round_double (2 / 5) = Finite (3602879701896397 / 9007199254740992)"
proof -
  have "round_double (2 / 5) =
      Finite (if 0 < (2 / 5 :: rat) then of_int 7205759403792794 * 2 powi (-2 - 52)
              else - (of_int 7205759403792794 * 2 powi (-2 - 52)))"
    by (rule round_double_at) simp_all
  then show ?thesis by simp
qed

lemma double_99_61: "round_double (9961 / 100) = Finite (7009430607537111 / 70368744177664)"
proof -
  have "round_double (9961 / 100) =
      Finite (if 0 < (9961 / 100 :: rat) then of_int 7009430607537111 * 2 powi (6 - 52)
              else - (of_int 7009430607537111 * 2 powi (6 - 52)))"
    by (rule round_double_at) simp_all
  then show ?thesis by simp
qed

lemma double_0_4_fixed: "round_double (3602879701896397 / 9007199254740992) = Finite (3602879701896397 / 9007199254740992)"
proof -
  have "round_double (3602879701896397 / 9007199254740992) =
      Finite (if 0 < (3602879701896397 / 9007199254740992 :: rat) then of_int 7205759403792794 * 2 powi (-2 - 52)
              else - (of_int 7205759403792794 * 2 powi (-2 - 52)))"
    by (rule round_double_at) simp_all
  then show ?thesis by simp
qed

lemma double_0_4_plus_99_61: "round_double (900809997466646605 / 9007199254740992) = Finite (7037578105208177 / 70368744177664)"
proof -
  have "round_double (900809997466646605 / 9007199254740992) =
      Finite (if 0 < (900809997466646605 / 9007199254740992 :: rat) then of_int 7037578105208177 * 2 powi (6 - 52)
              else - (of_int 7037578105208177 * 2 powi (6 - 52)))"
    by (rule round_double_at) simp_all
  then show ?thesis by simp
qed

lemma double_near_minus_100: "round_double (703687441777 / 70368744177664) = Finite (703687441777 / 70368744177664)"
proof -
  have "round_double (703687441777 / 70368744177664) =
      Finite (if 0 < (703687441777 / 70368744177664 :: rat) then of_int 5764607523037184 * 2 powi (-7 - 52)
              else - (of_int 5764607523037184 * 2 powi (-7 - 52)))"
    by (rule round_double_at) simp_all
  then show ?thesis by simp
qed

section \<open>Properties of the won-prize lifecycle\<close>

lemma save_status [simp]: "pw_status (save now prev pw) = pw_status pw"
  by (simp add: save_def beforeUpdate_def Let_def split: status.splits)

lemma sendNotification_status [simp]:
  "pw_status (snd (sendNotification m now ty (w, pw))) = pw_status pw"
  by (simp add: sendNotification_def)

lemma sendNotification_effects [simp]:
  "effects (fst (sendNotification m now ty (w, pw))) = effects w"
  by (simp add: sendNotification_def)

lemma incrementRedeemed_effects [simp]: "effects (incrementRedeemed pid w) = effects w"
  by (simp add: incrementRedeemed_def split: option.splits)

lemma applyToClient_effects:
  "applyToClient m p c w = (r, w1) \<Longrightarrow>
     (r \<noteq> Inr Applied_ok \<longrightarrow> w1 = w) \<and>
     (effects w1 = effects w \<or> (\<exists>e. effects w1 = effects w @ [e]))"
  by (auto simp: applyToClient_def split: if_splits prize_type.splits)

lemma apply_pw_not_pending:
  "pw_status pw \<noteq> Pending \<Longrightarrow>
     apply_pw m now u (w, pw) = (Inl (AlreadyStatus (pw_status pw)), (w, pw))"
  by (simp add: apply_pw_def canBeApplied_def)

lemma apply_pw_step: "step_ok (w, pw) (snd (apply_pw m now u (w, pw)))"
proof (cases "canBeApplied now pw")
  case (Some e)
  then show ?thesis by (simp add: apply_pw_def step_ok_def)
next
  case None
  then have pend: "pw_status pw = Pending"
    by (simp add: canBeApplied_def split: if_splits)
  show ?thesis
  proof (cases "has_Prize m")
    case False
    with None show ?thesis by (simp add: apply_pw_def step_ok_def)
  next
    case True
    show ?thesis
    proof (cases "prizes w (pw_prize_id pw)")
      case nf: None
      with None True show ?thesis by (simp add: apply_pw_def step_ok_def)
    next
      case (Some p)
      obtain r w1 where a: "applyToClient m p (pw_client_id pw) w = (r, w1)"
        by (cases "applyToClient m p (pw_client_id pw) w") auto
      from applyToClient_effects[OF a]
      have e: "r \<noteq> Inr Applied_ok \<longrightarrow> w1 = w"
        "effects w1 = effects w \<or> (\<exists>e. effects w1 = effects w @ [e])" by auto
      show ?thesis
      proof (cases r)
        case (Inl x)
        with e None True Some a show ?thesis by (simp add: apply_pw_def step_ok_def)
      next
        case (Inr res)
        with e None True Some a pend show ?thesis
          by (cases "res = Applied_ok") (simp_all add: apply_pw_def step_ok_def Let_def)
      qed
    qed
  qed
qed

lemma redeem_step: "step_ok (w, pw) (snd (redeem m now u notes (w, pw)))"
  by (simp add: redeem_def step_ok_def Let_def)

lemma cancel_step: "step_ok (w, pw) (snd (cancel m now u reason (w, pw)))"
  by (cases "pw_status pw") (simp_all add: cancel_def step_ok_def Let_def)

lemma step_ok_after_same:
  "pw_status (snd s1) = pw_status (snd s) \<Longrightarrow> effects (fst s1) = effects (fst s) \<Longrightarrow>
   step_ok s1 s2 \<Longrightarrow> step_ok s s2"
  by (simp add: step_ok_def)

lemma verify_step: "step_ok (w, pw) (snd (verify m now u (w, pw)))"
proof -
  define pw1 where "pw1 = save now pw
               (pw\<lparr>pw_verified := True, pw_verified_by_user_id := Some u,
                   pw_verified_date := Some now\<rparr>)"
  have st: "pw_status pw1 = pw_status pw" by (simp add: pw1_def)
  have same: "step_ok (w, pw) (w, pw1)" using st by (simp add: step_ok_def)
  have ap: "step_ok (w, pw) (snd (apply_pw m now (Some u) (w, pw1)))"
    by (rule step_ok_after_same[OF _ _ apply_pw_step]) (simp_all add: st)
  show ?thesis
    using same ap
    by (simp add: verify_def Let_def pw1_def[symmetric]
        split: option.splits prod.splits sum.splits) auto
qed

lemma exec_step: "step_ok s (exec m x s)"
proof -
  obtain w pw where s: "s = (w, pw)" by (cases s)
  obtain now o' where x: "x = (now, o')" by (cases x)
  show ?thesis unfolding s x
    by (cases o') (simp_all add: apply_pw_step redeem_step verify_step cancel_step)
qed

lemma run_terminal:
  "pw_status (snd s) \<in> {Applied, Redeemed} \<Longrightarrow> pw_status (snd (run m xs s)) = pw_status (snd s)"
proof (induction xs arbitrary: s)
  case Nil
  show ?case by simp
next
  case (Cons x xs)
  have "step_ok s (exec m x s)" by (rule exec_step)
  with Cons.prems have eq: "pw_status (snd (exec m x s)) = pw_status (snd s)"
    by (simp add: step_ok_def)
  with Cons.prems Cons.IH[of "exec m x s"] show ?case by simp
qed

lemma run_not_pending:
  "pw_status (snd s) \<noteq> Pending \<Longrightarrow>
     pw_status (snd (run m xs s)) \<noteq> Pending \<and> effects (fst (run m xs s)) = effects (fst s)"
proof (induction xs arbitrary: s)
  case Nil
  then show ?case by simp
next
  case (Cons x xs)
  have "step_ok s (exec m x s)" by (rule exec_step)
  with Cons.prems have a: "pw_status (snd (exec m x s)) \<noteq> Pending"
    and b: "effects (fst (exec m x s)) = effects (fst s)"
    by (auto simp: step_ok_def)
  from Cons.IH[OF a] b show ?case by simp
qed

lemma run_effects_once:
  "effects (fst (run m xs s)) = effects (fst s) \<or>
     (\<exists>e. effects (fst (run m xs s)) = effects (fst s) @ [e])"
proof (induction xs arbitrary: s)
  case Nil
  show ?case by simp
next
  case (Cons x xs)
  have st: "step_ok s (exec m x s)" by (rule exec_step)
  show ?case
  proof (cases "effects (fst (exec m x s)) = effects (fst s)")
    case True
    with Cons.IH[of "exec m x s"] show ?thesis by simp
  next
    case False
    with st obtain e where e: "effects (fst (exec m x s)) = effects (fst s) @ [e]"
      and ap: "pw_status (snd (exec m x s)) = Applied"
      by (auto simp: step_ok_def)
    from ap have "pw_status (snd (exec m x s)) \<noteq> Pending" by simp
    from run_not_pending[OF this, of m xs] e show ?thesis by simp
  qed
qed

lemma run_append: "run m (ys @ zs) s = run m zs (run m ys s)"
  by (induction ys arbitrary: s) simp_all

lemma cancel_pending_sample:
  "cancel all_models 2000 ''staff'' ''duplicate'' (gym_world, pending_winning)
     = (Inr (), (gym_world\<lparr>notifications := [(''c1'', N_cancelled)]\<rparr>,
        pending_winning\<lparr>pw_status := Cancelled, pw_cancelled_date := Some 2000,
          pw_cancelled_by_user_id := Some ''staff'', pw_cancelled_reason := Some ''duplicate'',
          pw_notification_sent := True, pw_notification_sent_date := Some 2000\<rparr>))"
  by (simp add: cancel_def all_models_def gym_world_def pending_winning_def newWinning_def
      sendNotification_def save_def beforeUpdate_def Let_def)

text \<open>
  C1. Along any run of apply, redeem, verify and cancel requests on a won-prize row:
  once the status is \<open>Applied\<close> or \<open>Redeemed\<close> it never changes again; the whole run
  logs at most one side effect; and from any point where the status is not \<open>Pending\<close>
  (so also after a cancellation) no side effect is logged any more, and \<open>apply\<close> there
  throws and changes nothing.
\<close>

theorem lifecycle_terminal_single_effect:
  "(pw_status (snd (run m ys s)) \<in> {Applied, Redeemed} \<longrightarrow>
      pw_status (snd (run m (ys @ zs) s)) = pw_status (snd (run m ys s))) \<and>
   (effects (fst (run m ys s)) = effects (fst s) \<or>
      (\<exists>e. effects (fst (run m ys s)) = effects (fst s) @ [e])) \<and>
   (pw_status (snd (run m ys s)) \<noteq> Pending \<longrightarrow>
      effects (fst (run m (ys @ zs) s)) = effects (fst (run m ys s)) \<and>
      apply_pw m now u (run m ys s)
        = (Inl (AlreadyStatus (pw_status (snd (run m ys s)))), run m ys s))"
proof (intro conjI impI)
  assume "pw_status (snd (run m ys s)) \<in> {Applied, Redeemed}"
  then show "pw_status (snd (run m (ys @ zs) s)) = pw_status (snd (run m ys s))"
    using run_terminal [of "run m ys s" m zs] by (simp add: run_append)
next
  show "effects (fst (run m ys s)) = effects (fst s) \<or>
      (\<exists>e. effects (fst (run m ys s)) = effects (fst s) @ [e])"
    by (rule run_effects_once)
next
  assume "pw_status (snd (run m ys s)) \<noteq> Pending"
  then show "effects (fst (run m (ys @ zs) s)) = effects (fst (run m ys s))"
    using run_not_pending [of "run m ys s" m zs] by (simp add: run_append)
next
  assume np: "pw_status (snd (run m ys s)) \<noteq> Pending"
  obtain w pw where r: "run m ys s = (w, pw)" by (cases "run m ys s")
  with np show "apply_pw m now u (run m ys s)
        = (Inl (AlreadyStatus (pw_status (snd (run m ys s)))), run m ys s)"
    by (simp add: apply_pw_not_pending)
qed

theorem lifecycle_terminal_single_effect_witness:
  "pw_status (snd (run all_models [(2000, Cancel ''staff'' ''duplicate'')]
      (gym_world, pending_winning))) = Cancelled \<and>
   effects (fst (run all_models ([(2000, Cancel ''staff'' ''duplicate'')] @ [(3000, Apply None)])
      (gym_world, pending_winning))) = [] \<and>
   fst (apply_pw all_models 3000 None
      (run all_models [(2000, Cancel ''staff'' ''duplicate'')] (gym_world, pending_winning)))
      = Inl (AlreadyStatus Cancelled)"
proof -
  let ?s1 = "run all_models [(2000, Cancel ''staff'' ''duplicate'')] (gym_world, pending_winning)"
  have c: "pw_status (snd ?s1) = Cancelled"
    by (simp add: cancel_pending_sample)
  have e: "effects (fst ?s1) = []"
    by (simp add: cancel_pending_sample) (simp add: gym_world_def)
  from c have np: "pw_status (snd ?s1) \<noteq> Pending" by simp
  from lifecycle_terminal_single_effect [of all_models "[(2000, Cancel ''staff'' ''duplicate'')]"
      "(gym_world, pending_winning)" "[(3000, Apply None)]" 3000 None] np
  have "effects (fst (run all_models ([(2000, Cancel ''staff'' ''duplicate'')] @ [(3000, Apply None)])
      (gym_world, pending_winning))) = effects (fst ?s1)"
    and "apply_pw all_models 3000 None ?s1 = (Inl (AlreadyStatus (pw_status (snd ?s1))), ?s1)"
    by blast+
  with c e show ?thesis by (simp only: fst_conv)
qed

text \<open>
  C6 as stated fails: a second cancel of an already cancelled row does not throw; the
  guard of \<open>cancel\<close> only refuses \<open>Applied\<close> and \<open>Redeemed\<close>.
\<close>

theorem cancel_again_counterexample:
  "pw_status (snd (snd (cancel all_models 2000 ''staff'' ''duplicate''
       (gym_world, pending_winning)))) = Cancelled \<and>
   fst (cancel all_models 3000 ''staff'' ''again''
     (snd (cancel all_models 2000 ''staff'' ''duplicate'' (gym_world, pending_winning))))
     = Inr ()"
  by (simp add: cancel_pending_sample) (simp add: cancel_def Let_def)

text \<open>
  C6, amended. \<open>cancel\<close> throws the state-conflict error, changing nothing, exactly on
  an \<open>Applied\<close> or \<open>Redeemed\<close> row. On every other row (a \<open>Pending\<close> one, and also an
  already \<open>Cancelled\<close> one) it succeeds and leaves the status \<open>Cancelled\<close> with the
  cancellation date, user and reason of this call.
\<close>

theorem cancel_refuses_only_applied_redeemed:
  "(pw_status pw \<in> {Applied, Redeemed} \<longrightarrow>
      cancel m now u why (w, pw) = (Inl CannotCancel, (w, pw))) \<and>
   (pw_status pw \<notin> {Applied, Redeemed} \<longrightarrow>
      fst (cancel m now u why (w, pw)) = Inr () \<and>
      pw_status (snd (snd (cancel m now u why (w, pw)))) = Cancelled \<and>
      pw_cancelled_date (snd (snd (cancel m now u why (w, pw)))) = Some now \<and>
      pw_cancelled_by_user_id (snd (snd (cancel m now u why (w, pw)))) = Some u \<and>
      pw_cancelled_reason (snd (snd (cancel m now u why (w, pw)))) = Some why)"
  by (simp add: cancel_def Let_def sendNotification_def save_def beforeUpdate_def)

theorem cancel_refuses_only_applied_redeemed_witness:
  "pw_status pending_winning \<notin> {Applied, Redeemed} \<and>
   fst (cancel all_models 2000 ''staff'' ''duplicate'' (gym_world, pending_winning)) = Inr () \<and>
   pw_status (snd (snd (cancel all_models 2000 ''staff'' ''duplicate''
      (gym_world, pending_winning)))) = Cancelled \<and>
   pw_status (pending_winning\<lparr>pw_status := Applied\<rparr>) \<in> {Applied, Redeemed} \<and>
   cancel all_models 2000 ''staff'' ''duplicate''
      (gym_world, pending_winning\<lparr>pw_status := Applied\<rparr>)
     = (Inl CannotCancel, (gym_world, pending_winning\<lparr>pw_status := Applied\<rparr>))"
proof -
  have p: "pw_status pending_winning \<notin> {Applied, Redeemed}"
    by (simp add: pending_winning_def newWinning_def)
  have a: "pw_status (pending_winning\<lparr>pw_status := Applied\<rparr>) \<in> {Applied, Redeemed}"
    by simp
  from p a
    cancel_refuses_only_applied_redeemed [of pending_winning all_models 2000 "''staff''"
      "''duplicate''" gym_world]
    cancel_refuses_only_applied_redeemed [of "pending_winning\<lparr>pw_status := Applied\<rparr>"
      all_models 2000 "''staff''" "''duplicate''" gym_world]
  show ?thesis by blast
qed

text \<open>
  C9 as stated fails: a won-prize row has no history trail. Cancelling a \<open>Pending\<close> row
  and cancelling the same row in status \<open>Expired\<close> leave identical rows and tables, so
  nothing records the previous status.
\<close>

theorem history_trail_counterexample:
  "pw_status pending_winning \<noteq> pw_status (pending_winning\<lparr>pw_status := Expired\<rparr>) \<and>
   cancel all_models 2000 ''staff'' ''duplicate'' (gym_world, pending_winning)
     = cancel all_models 2000 ''staff'' ''duplicate''
         (gym_world, pending_winning\<lparr>pw_status := Expired\<rparr>)"
  by (simp add: cancel_def all_models_def gym_world_def pending_winning_def newWinning_def
      sendNotification_def save_def beforeUpdate_def Let_def)

text \<open>
  C9, amended. The transitions the code implements overwrite the row in place. A
  successful \<open>redeem\<close>, \<open>cancel\<close> or \<open>apply\<close> sets the status column and that
  transition's own date, user and reason columns (and the notification flag), and
  nothing else; after a cancel, the row and the tables do not depend on the status the
  row had before.
\<close>

theorem transitions_overwrite_row:
  "(fst (redeem m now u notes (w, pw)) = Inr () \<longrightarrow>
      snd (snd (redeem m now u notes (w, pw))) =
        (let row = pw\<lparr>pw_status := Redeemed, pw_redeemed_date := Some now,
                       pw_processed_by_user_id := Some u, pw_processing_notes := notes\<rparr>
         in if has_Notification m
            then row\<lparr>pw_notification_sent := True, pw_notification_sent_date := Some now\<rparr>
            else row)) \<and>
   (fst (cancel m now u why (w, pw)) = Inr () \<longrightarrow>
      snd (snd (cancel m now u why (w, pw))) =
        (let row = pw\<lparr>pw_status := Cancelled, pw_cancelled_date := Some now,
                       pw_cancelled_by_user_id := Some u, pw_cancelled_reason := Some why\<rparr>
         in if has_Notification m
            then row\<lparr>pw_notification_sent := True, pw_notification_sent_date := Some now\<rparr>
            else row) \<and>
      snd (cancel m now u why (w, pw)) = snd (cancel m now u why (w, pw\<lparr>pw_status := Pending\<rparr>))) \<and>
   (fst (apply_pw m now by_user (w, pw)) = Inr Applied_ok \<longrightarrow>
      snd (snd (apply_pw m now by_user (w, pw))) =
        (let row = pw\<lparr>pw_status := Applied, pw_auto_applied := True,
                       pw_applied_date := Some now, pw_processed_by_user_id := by_user\<rparr>
         in if has_Notification m \<and> \<not> pw_notification_sent pw
            then row\<lparr>pw_notification_sent := True, pw_notification_sent_date := Some now\<rparr>
            else row))"
proof (intro conjI impI)
  assume "fst (redeem m now u notes (w, pw)) = Inr ()"
  then show "snd (snd (redeem m now u notes (w, pw))) =
        (let row = pw\<lparr>pw_status := Redeemed, pw_redeemed_date := Some now,
                       pw_processed_by_user_id := Some u, pw_processing_notes := notes\<rparr>
         in if has_Notification m
            then row\<lparr>pw_notification_sent := True, pw_notification_sent_date := Some now\<rparr>
            else row)"
    by (simp add: redeem_def Let_def sendNotification_def save_def beforeUpdate_def
        split: if_splits)
next
  assume "fst (cancel m now u why (w, pw)) = Inr ()"
  then show "snd (snd (cancel m now u why (w, pw))) =
        (let row = pw\<lparr>pw_status := Cancelled, pw_cancelled_date := Some now,
                       pw_cancelled_by_user_id := Some u, pw_cancelled_reason := Some why\<rparr>
         in if has_Notification m
            then row\<lparr>pw_notification_sent := True, pw_notification_sent_date := Some now\<rparr>
            else row)"
    by (simp add: cancel_def Let_def sendNotification_def save_def beforeUpdate_def
        split: if_splits)
next
  assume "fst (cancel m now u why (w, pw)) = Inr ()"
  then show "snd (cancel m now u why (w, pw)) = snd (cancel m now u why (w, pw\<lparr>pw_status := Pending\<rparr>))"
    by (simp add: cancel_def Let_def sendNotification_def save_def beforeUpdate_def
        split: if_splits)
next
  assume ok: "fst (apply_pw m now by_user (w, pw)) = Inr Applied_ok"
  have none: "canBeApplied now pw = None"
    using ok by (cases "canBeApplied now pw") (simp_all add: apply_pw_def)
  have hp: "has_Prize m"
    using ok none by (cases "has_Prize m") (simp_all add: apply_pw_def)
  obtain p where p: "prizes w (pw_prize_id pw) = Some p"
    using ok none hp by (cases "prizes w (pw_prize_id pw)") (simp_all add: apply_pw_def)
  obtain r w1 where a: "applyToClient m p (pw_client_id pw) w = (r, w1)"
    by (cases "applyToClient m p (pw_client_id pw) w") auto
  have r: "r = Inr Applied_ok"
    using ok none hp p a by (cases r) (simp_all add: apply_pw_def Let_def split: if_splits)
  show "snd (snd (apply_pw m now by_user (w, pw))) =
        (let row = pw\<lparr>pw_status := Applied, pw_auto_applied := True,
                       pw_applied_date := Some now, pw_processed_by_user_id := by_user\<rparr>
         in if has_Notification m \<and> \<not> pw_notification_sent pw
            then row\<lparr>pw_notification_sent := True, pw_notification_sent_date := Some now\<rparr>
            else row)"
    using none hp p a r
    by (simp add: apply_pw_def Let_def sendNotification_def save_def beforeUpdate_def)
qed

theorem transitions_overwrite_row_witness:
  "fst (cancel all_models 2000 ''staff'' ''duplicate'' (gym_world, pending_winning)) = Inr () \<and>
   snd (snd (cancel all_models 2000 ''staff'' ''duplicate'' (gym_world, pending_winning))) =
     pending_winning\<lparr>pw_status := Cancelled, pw_cancelled_date := Some 2000,
        pw_cancelled_by_user_id := Some ''staff'', pw_cancelled_reason := Some ''duplicate'',
        pw_notification_sent := True, pw_notification_sent_date := Some 2000\<rparr>"
proof -
  have ok: "fst (cancel all_models 2000 ''staff'' ''duplicate'' (gym_world, pending_winning)) = Inr ()"
    by (simp add: cancel_pending_sample)
  have n: "has_Notification all_models" by (simp add: all_models_def)
  from ok transitions_overwrite_row [of all_models 2000 "''staff''" None gym_world
      pending_winning "''duplicate''" None]
  have "snd (snd (cancel all_models 2000 ''staff'' ''duplicate'' (gym_world, pending_winning))) =
        (let row = pending_winning\<lparr>pw_status := Cancelled, pw_cancelled_date := Some 2000,
                       pw_cancelled_by_user_id := Some ''staff'',
                       pw_cancelled_reason := Some ''duplicate''\<rparr>
         in if has_Notification all_models
            then row\<lparr>pw_notification_sent := True, pw_notification_sent_date := Some 2000\<rparr>
            else row)"
    by blast
  with ok n show ?thesis by (simp only: Let_def if_True simp_thms)
qed

section \<open>Properties of the scan gate\<close>

lemma use_Inr:
  "use q c now = Inr (res, q1) \<Longrightarrow>
     qr_current_uses q < qr_max_uses q \<and>
     qr_current_uses q1 = qr_current_uses q + 1 \<and>
     qr_scan_count q1 = qr_scan_count q + 1 \<and>
     qr_max_uses q1 = qr_max_uses q \<and>
     uses_remaining res = qr_max_uses q - (qr_current_uses q + 1) \<and>
     ur_prize_category res = qr_prize_category q \<and>
     (qr_is_used q1 \<longleftrightarrow> qr_is_used q \<or> qr_current_uses q + 1 \<ge> qr_max_uses q)"
  by (auto simp: use_def isValid_def Let_def split: option.splits if_splits)

lemma use_open:
  assumes "open_at q t" and "qr_current_uses q < qr_max_uses q"
  shows "\<exists>res q1. use q c t = Inr (res, q1) \<and> (\<forall>t'. open_at q1 t' = open_at q t')"
  using assms
  by (auto simp: use_def isValid_def open_at_def isValidTime_def Let_def split: option.splits)

lemma use_exhausted:
  "qr_is_active q \<Longrightarrow> qr_current_uses q \<ge> qr_max_uses q \<Longrightarrow> use q c t = Inl CodeExhausted"
  by (simp add: use_def isValid_def)

lemma use_full_rejected:
  "qr_current_uses q \<ge> qr_max_uses q \<Longrightarrow> \<exists>e. use q c t = Inl e"
  by (simp add: use_def isValid_def)

lemma scans_Cons_snd:
  "snd (scans q ((c, t) # rest)) =
     (case use q c t of Inl e \<Rightarrow> snd (scans q rest) | Inr (res, q1) \<Rightarrow> snd (scans q1 rest))"
  by (simp split: sum.splits prod.splits)

lemma scans_bounded:
  "qr_current_uses q \<le> qr_max_uses q \<Longrightarrow>
     qr_current_uses (snd (scans q xs)) \<le> qr_max_uses (snd (scans q xs))"
proof (induction xs arbitrary: q)
  case Nil
  then show ?case by simp
next
  case (Cons x xs)
  obtain c t where x: "x = (c, t)" by (cases x)
  show ?case
  proof (cases "use q c t")
    case (Inl e)
    with Cons x show ?thesis by (simp only: scans_Cons_snd sum.case)
  next
    case (Inr a)
    obtain res q1 where a: "a = (res, q1)" by (cases a)
    from use_Inr[of q c t res q1] Inr a
    have "qr_current_uses q1 \<le> qr_max_uses q1" by simp
    from Cons.IH[OF this] Inr a x show ?thesis
      by (simp only: scans_Cons_snd sum.case prod.case)
  qed
qed

lemma three_then_refused:
  assumes m: "qr_max_uses q = 3" and z: "qr_current_uses q = 0"
    and o1: "open_at q t1" and o2: "open_at q t2" and o3: "open_at q t3" and o4: "open_at q t4"
  shows "\<exists>r1 r2 r3 q3.
      scans q [(c1, t1), (c2, t2), (c3, t3)] = ([Inr r1, Inr r2, Inr r3], q3) \<and>
      qr_is_used q3 \<and> qr_current_uses q3 = 3 \<and>
      uses_remaining r1 = 2 \<and> uses_remaining r2 = 1 \<and> uses_remaining r3 = 0 \<and>
      scans q [(c1, t1), (c2, t2), (c3, t3), (c4, t4)]
        = ([Inr r1, Inr r2, Inr r3, Inl CodeExhausted], q3)"
proof -
  from use_open[OF o1, of c1] m z obtain r1 q1 where
    u1: "use q c1 t1 = Inr (r1, q1)" and p1: "\<And>t'. open_at q1 t' = open_at q t'" by auto
  note f1 = use_Inr[OF u1]
  from f1 m z have c1: "qr_current_uses q1 = 1" "qr_max_uses q1 = 3" by simp_all
  from use_open[of q1 t2 c2] o2 p1 c1 obtain r2 q2 where
    u2: "use q1 c2 t2 = Inr (r2, q2)" and p2: "\<And>t'. open_at q2 t' = open_at q1 t'" by auto
  note f2 = use_Inr[OF u2]
  from f2 c1 have c2: "qr_current_uses q2 = 2" "qr_max_uses q2 = 3" by simp_all
  from use_open[of q2 t3 c3] o3 p1 p2 c2 obtain r3 q3 where
    u3: "use q2 c3 t3 = Inr (r3, q3)" and p3: "\<And>t'. open_at q3 t' = open_at q2 t'" by auto
  note f3 = use_Inr[OF u3]
  from f3 c2 have c3: "qr_current_uses q3 = 3" "qr_max_uses q3 = 3" "qr_is_used q3"
    by simp_all
  from o4 p1 p2 p3 have "open_at q3 t4" by simp
  then have "qr_is_active q3" by (simp add: open_at_def)
  from use_exhausted[OF this, of c4 t4] c3
  have u4: "use q3 c4 t4 = Inl CodeExhausted" by simp
  have s3: "scans q [(c1, t1), (c2, t2), (c3, t3)] = ([Inr r1, Inr r2, Inr r3], q3)"
    by (simp add: u1 u2 u3)
  have s4: "scans q [(c1, t1), (c2, t2), (c3, t3), (c4, t4)]
        = ([Inr r1, Inr r2, Inr r3, Inl CodeExhausted], q3)"
    by (simp add: u1 u2 u3 u4)
  from f1 f2 f3 m z c1 c2 have rem: "uses_remaining r1 = 2" "uses_remaining r2 = 1"
    "uses_remaining r3 = 0" by simp_all
  from s3 s4 c3 rem show ?thesis by blast
qed

text \<open>
  C5. Scans never take \<open>current_uses\<close> above \<open>max_uses\<close>. A successful use adds one
  to \<open>current_uses\<close> and to the scan counter and returns the remaining uses and the
  prize category; when it reaches \<open>max_uses\<close> the gate is marked used; a gate whose
  \<open>current_uses\<close> has reached \<open>max_uses\<close> refuses every use. With \<open>max_uses = 3\<close>,
  three scans of an open gate succeed, the gate is marked used after the third, and
  the fourth scan is refused.
\<close>

theorem scan_gate_uses_bounded:
  "(qr_current_uses q \<le> qr_max_uses q \<longrightarrow>
      qr_current_uses (snd (scans q xs)) \<le> qr_max_uses (snd (scans q xs))) \<and>
   (use q c now = Inr (res, q1) \<longrightarrow>
      qr_current_uses q1 = qr_current_uses q + 1 \<and>
      qr_scan_count q1 = qr_scan_count q + 1 \<and>
      qr_max_uses q1 = qr_max_uses q \<and>
      qr_current_uses q1 \<le> qr_max_uses q1 \<and>
      uses_remaining res = qr_max_uses q1 - qr_current_uses q1 \<and>
      ur_prize_category res = qr_prize_category q \<and>
      (qr_current_uses q1 = qr_max_uses q1 \<longrightarrow> qr_is_used q1)) \<and>
   (qr_current_uses q \<ge> qr_max_uses q \<longrightarrow> (\<exists>e. use q c now = Inl e)) \<and>
   (qr_max_uses q = 3 \<and> qr_current_uses q = 0 \<and>
    open_at q t1 \<and> open_at q t2 \<and> open_at q t3 \<and> open_at q t4 \<longrightarrow>
      (\<exists>r1 r2 r3 q3.
         scans q [(c1, t1), (c2, t2), (c3, t3)] = ([Inr r1, Inr r2, Inr r3], q3) \<and>
         qr_is_used q3 \<and> qr_current_uses q3 = 3 \<and>
         uses_remaining r1 = 2 \<and> uses_remaining r2 = 1 \<and> uses_remaining r3 = 0 \<and>
         scans q [(c1, t1), (c2, t2), (c3, t3), (c4, t4)]
           = ([Inr r1, Inr r2, Inr r3, Inl CodeExhausted], q3)))"
proof (intro conjI impI)
  assume "qr_current_uses q \<le> qr_max_uses q"
  then show "qr_current_uses (snd (scans q xs)) \<le> qr_max_uses (snd (scans q xs))"
    by (rule scans_bounded)
next
  assume u: "use q c now = Inr (res, q1)"
  note f = use_Inr[OF u]
  from f show "qr_current_uses q1 = qr_current_uses q + 1" by simp
  from f show "qr_scan_count q1 = qr_scan_count q + 1" by simp
  from f show "qr_max_uses q1 = qr_max_uses q" by simp
  from f show "qr_current_uses q1 \<le> qr_max_uses q1" by simp
  from f show "uses_remaining res = qr_max_uses q1 - qr_current_uses q1" by simp
  from f show "ur_prize_category res = qr_prize_category q" by simp
  assume "qr_current_uses q1 = qr_max_uses q1"
  with f show "qr_is_used q1" by simp
next
  assume "qr_current_uses q \<ge> qr_max_uses q"
  then show "\<exists>e. use q c now = Inl e" by (rule use_full_rejected)
next
  assume a: "qr_max_uses q = 3 \<and> qr_current_uses q = 0 \<and>
    open_at q t1 \<and> open_at q t2 \<and> open_at q t3 \<and> open_at q t4"
  then show "\<exists>r1 r2 r3 q3.
         scans q [(c1, t1), (c2, t2), (c3, t3)] = ([Inr r1, Inr r2, Inr r3], q3) \<and>
         qr_is_used q3 \<and> qr_current_uses q3 = 3 \<and>
         uses_remaining r1 = 2 \<and> uses_remaining r2 = 1 \<and> uses_remaining r3 = 0 \<and>
         scans q [(c1, t1), (c2, t2), (c3, t3), (c4, t4)]
           = ([Inr r1, Inr r2, Inr r3, Inl CodeExhausted], q3)"
    using three_then_refused[of q t1 t2 t3 t4 c1 c2 c3 c4] by blast
qed

lemma sample_qr_open: "open_at sample_qr t \<longleftrightarrow> 0 \<le> t"
  by (simp add: open_at_def sample_qr_def isValidTime_def)

theorem scan_gate_uses_bounded_witness:
  "qr_max_uses sample_qr = 3 \<and> qr_current_uses sample_qr = 0 \<and>
   open_at sample_qr 1000 \<and> open_at sample_qr 2000 \<and> open_at sample_qr 3000 \<and>
   open_at sample_qr 4000 \<and>
   (\<exists>r1 r2 r3 q3.
      scans sample_qr [(''c1'', 1000), (''c2'', 2000), (''c3'', 3000), (''c4'', 4000)]
        = ([Inr r1, Inr r2, Inr r3, Inl CodeExhausted], q3) \<and> qr_is_used q3)"
proof -
  have h: "qr_max_uses sample_qr = 3 \<and> qr_current_uses sample_qr = 0 \<and>
    open_at sample_qr 1000 \<and> open_at sample_qr 2000 \<and> open_at sample_qr 3000 \<and>
    open_at sample_qr 4000"
    by (simp add: sample_qr_open) (simp add: sample_qr_def)
  from h scan_gate_uses_bounded [where q = sample_qr and ?t1.0 = 1000 and ?t2.0 = 2000
      and ?t3.0 = 3000 and ?t4.0 = 4000 and ?c1.0 = "''c1''" and ?c2.0 = "''c2''"
      and ?c3.0 = "''c3''" and ?c4.0 = "''c4''"]
  show ?thesis by blast
qed

section \<open>Properties of the limit checks\<close>

lemma startOfDay_bounds:
  "startOfDay t \<le> t \<and> t < startOfDay t + ms_per_day \<and> startOfDay t mod ms_per_day = 0"
  by (simp add: startOfDay_def ms_per_day_def minus_mod_eq_mult_div [symmetric]) 

lemma startOfDay_div: "startOfDay t = (t div ms_per_day) * ms_per_day"
  by (simp add: startOfDay_def ms_per_day_def minus_mod_eq_div_mult)

lemma startOfWeek_eq:
  "startOfWeek t = (t div ms_per_day - getDay t) * ms_per_day"
proof -
  have "(t - getDay t * ms_per_day) div ms_per_day = t div ms_per_day - getDay t"
    by (simp add: ms_per_day_def)
  then show ?thesis by (simp add: startOfWeek_def startOfDay_div)
qed

lemma getDay_range: "0 \<le> getDay t \<and> getDay t < 7"
  by (simp add: getDay_def)

lemma startOfWeek_sunday: "getDay (startOfWeek t) = 0"
proof -
  have "startOfWeek t div ms_per_day = t div ms_per_day - getDay t"
    by (simp add: startOfWeek_eq ms_per_day_def)
  then have "getDay (startOfWeek t) = (t div ms_per_day - getDay t + 4) mod 7"
    by (simp add: getDay_def [of "startOfWeek t"])
  also have "\<dots> = 0"
  proof -
    have "\<And>d::int. (d - (d + 4) mod 7 + 4) mod 7 = 0" by presburger
    then show ?thesis by (simp add: getDay_def)
  qed
  finally show ?thesis .
qed

lemma startOfWeek_bounds:
  "startOfWeek t \<le> t \<and> t < startOfWeek t + 7 * ms_per_day \<and> startOfWeek t mod ms_per_day = 0"
proof -
  have a: "startOfWeek t = startOfDay t - getDay t * ms_per_day"
    by (simp add: startOfWeek_eq startOfDay_div algebra_simps)
  from startOfDay_bounds[of t] getDay_range[of t] have "startOfWeek t \<le> t"
    unfolding a by (simp add: ms_per_day_def)
  moreover from startOfDay_bounds[of t] getDay_range[of t] have "t < startOfWeek t + 7 * ms_per_day"
    unfolding a by (simp add: ms_per_day_def)
  moreover have "startOfWeek t mod ms_per_day = 0" by (simp add: startOfWeek_eq)
  ultimately show ?thesis by simp
qed

lemma countPrizeSince_card:
  "countPrizeSince table pid since =
     int (card {i. i < length table \<and> pw_prize_id (table ! i) = pid
                    \<and> since \<le> pw_created_at (table ! i)})"
  by (simp add: countPrizeSince_def length_filter_conv_card)

lemma nonempty_length: "xs \<noteq> [] \<Longrightarrow> 1 \<le> int (length xs)"
  by (cases xs) simp_all

lemma countPrizeSince_member:
  assumes "w \<in> set table" and "pw_prize_id w = pid" and "since \<le> pw_created_at w"
  shows "1 \<le> countPrizeSince table pid since"
proof -
  from assms have "w \<in> set (filter (\<lambda>w. pw_prize_id w = pid \<and> pw_created_at w \<ge> since) table)"
    by simp
  then have "filter (\<lambda>w. pw_prize_id w = pid \<and> pw_created_at w \<ge> since) table \<noteq> []"
    by (metis empty_iff list.set(1))
  then show ?thesis unfolding countPrizeSince_def by (rule nonempty_length)
qed

lemma same_day_counted:
  "startOfDay (pw_created_at w) = startOfDay now \<Longrightarrow> startOfDay now \<le> pw_created_at w"
  using startOfDay_bounds[of "pw_created_at w"] by simp

lemma checkLimits_one_per_day:
  assumes "has_PrizeWinning m" and "pz_max_per_day p = Some 1" and "w \<in> set table"
    and "pw_prize_id w = pz_id p" and "startOfDay (pw_created_at w) = startOfDay now"
  shows "checkLimits m p now table = Unavailable DailyLimitReached"
  using assms countPrizeSince_member[of w table "pz_id p" "startOfDay now"] same_day_counted[of w now]
  by (simp add: checkLimits_def cap_reached_def)

text \<open>
  C4. With the won-prize model registered, \<open>checkLimits\<close> refuses with the daily
  reason exactly when a daily cap is set and the number of rows of this prize created
  since the start of the current day has reached it, and with the weekly reason exactly
  when the daily check passes, a weekly cap is set and the number of rows created since
  the start of the current week has reached it. The day starts at midnight, the week at
  midnight of the Sunday on or before today. In particular with \<open>max_per_day = 1\<close>, once
  a row of the prize was created today, the check refuses for the rest of the day.
\<close>

theorem checkLimits_daily_weekly_caps:
  "has_PrizeWinning m \<longrightarrow>
     (let today = int (card {i. i < length table \<and> pw_prize_id (table ! i) = pz_id p
                              \<and> startOfDay now \<le> pw_created_at (table ! i)});
          week = int (card {i. i < length table \<and> pw_prize_id (table ! i) = pz_id p
                              \<and> startOfWeek now \<le> pw_created_at (table ! i)});
          daily = (\<exists>d. pz_max_per_day p = Some d \<and> d \<noteq> 0 \<and> d \<le> today);
          weekly = (\<exists>k. pz_max_per_week p = Some k \<and> k \<noteq> 0 \<and> k \<le> week)
      in (checkLimits m p now table = Unavailable DailyLimitReached \<longleftrightarrow> daily) \<and>
         (checkLimits m p now table = Unavailable WeeklyLimitReached \<longleftrightarrow> \<not> daily \<and> weekly) \<and>
         (checkLimits m p now table = Available \<longleftrightarrow> \<not> daily \<and> \<not> weekly)) \<and>
     startOfDay now \<le> now \<and> now < startOfDay now + ms_per_day \<and>
     startOfDay now mod ms_per_day = 0 \<and>
     startOfWeek now \<le> now \<and> now < startOfWeek now + 7 * ms_per_day \<and>
     startOfWeek now mod ms_per_day = 0 \<and> getDay (startOfWeek now) = 0 \<and>
     (pz_max_per_day p = Some 1 \<and> w \<in> set table \<and> pw_prize_id w = pz_id p \<and>
      startOfDay (pw_created_at w) = startOfDay now \<longrightarrow>
        checkLimits m p now table = Unavailable DailyLimitReached)"
proof (intro impI conjI)
  assume h: "has_PrizeWinning m"
  show "let today = int (card {i. i < length table \<and> pw_prize_id (table ! i) = pz_id p
                              \<and> startOfDay now \<le> pw_created_at (table ! i)});
          week = int (card {i. i < length table \<and> pw_prize_id (table ! i) = pz_id p
                              \<and> startOfWeek now \<le> pw_created_at (table ! i)});
          daily = (\<exists>d. pz_max_per_day p = Some d \<and> d \<noteq> 0 \<and> d \<le> today);
          weekly = (\<exists>k. pz_max_per_week p = Some k \<and> k \<noteq> 0 \<and> k \<le> week)
      in (checkLimits m p now table = Unavailable DailyLimitReached \<longleftrightarrow> daily) \<and>
         (checkLimits m p now table = Unavailable WeeklyLimitReached \<longleftrightarrow> \<not> daily \<and> weekly) \<and>
         (checkLimits m p now table = Available \<longleftrightarrow> \<not> daily \<and> \<not> weekly)"
    using h
    by (auto simp: Let_def checkLimits_def cap_reached_def countPrizeSince_card [symmetric]
        split: option.splits)
next
  assume h: "has_PrizeWinning m"
  assume "pz_max_per_day p = Some 1 \<and> w \<in> set table \<and> pw_prize_id w = pz_id p \<and>
      startOfDay (pw_created_at w) = startOfDay now"
  with h show "checkLimits m p now table = Unavailable DailyLimitReached"
    using checkLimits_one_per_day [of m p w table now] by blast
qed (simp_all add: startOfDay_bounds startOfWeek_bounds startOfWeek_sunday)

theorem checkLimits_daily_weekly_caps_witness:
  "has_PrizeWinning all_models \<and> pz_max_per_day points_prize = Some 1 \<and>
   newWinning 32400000 ''c1'' ''p1'' None False \<in> set [newWinning 32400000 ''c1'' ''p1'' None False] \<and>
   pw_prize_id (newWinning 32400000 ''c1'' ''p1'' None False) = pz_id points_prize \<and>
   startOfDay (pw_created_at (newWinning 32400000 ''c1'' ''p1'' None False)) = startOfDay 36000000 \<and>
   checkLimits all_models points_prize 36000000 [newWinning 32400000 ''c1'' ''p1'' None False]
     = Unavailable DailyLimitReached"
proof -
  have h: "has_PrizeWinning all_models" by (simp add: all_models_def)
  have s: "pz_max_per_day points_prize = Some 1 \<and>
     newWinning 32400000 ''c1'' ''p1'' None False \<in> set [newWinning 32400000 ''c1'' ''p1'' None False] \<and>
     pw_prize_id (newWinning 32400000 ''c1'' ''p1'' None False) = pz_id points_prize \<and>
     startOfDay (pw_created_at (newWinning 32400000 ''c1'' ''p1'' None False)) = startOfDay 36000000"
    by (simp add: points_prize_def newWinning_def startOfDay_def ms_per_day_def)
  from h s checkLimits_daily_weekly_caps [of all_models
      "[newWinning 32400000 ''c1'' ''p1'' None False]" points_prize 36000000
      "newWinning 32400000 ''c1'' ''p1'' None False"]
  show ?thesis by blast
qed


















section \<open>Properties of the stock counter\<close>

lemma beforeCreate_prize_id:
  "beforeCreate m now rnd w table pw = Inr pw1 \<Longrightarrow> pw_prize_id pw1 = pw_prize_id pw"
  by (auto simp: beforeCreate_def split: if_splits sum.splits option.splits)

lemma afterCreate_prizes:
  "prizes (afterCreate m pw w) =
     (if has_Prize m then
        (case prizes w (pw_prize_id pw) of
           None \<Rightarrow> prizes w
         | Some p \<Rightarrow> (prizes w)(pw_prize_id pw \<mapsto> incrementAwarded p))
      else prizes w)"
  by (simp add: afterCreate_def Let_def split: option.splits)

lemma isAvailable_stock:
  "isAvailable p now = Available \<Longrightarrow> pz_stock_quantity p = Some q \<Longrightarrow> pz_awarded_count p < q"
  by (simp add: isAvailable_def split: if_splits)

lemma draw_cases:
  "draw m rq s = (res, s1) \<Longrightarrow>
     (s1 = s \<and> (\<exists>e. res = Inl e)) \<or>
     (\<exists>p pw1. prizes (fst s) (dr_prize_id rq) = Some p \<and> isAvailable p (dr_now rq) = Available \<and>
        res = Inr pw1 \<and> pw_prize_id pw1 = dr_prize_id rq \<and>
        s1 = (afterCreate m pw1 (fst s), snd s @ [pw1]))"
proof -
  assume d: "draw m rq s = (res, s1)"
  obtain w table where s: "s = (w, table)" by (cases s)
  show ?thesis
  proof (cases "prizes w (dr_prize_id rq)")
    case None
    with d s show ?thesis by (auto simp: draw_def)
  next
    case (Some p)
    show ?thesis
    proof (cases "isAvailable p (dr_now rq)")
      case (Unavailable r)
      with d s Some show ?thesis by (auto simp: draw_def)
    next
      case Available
      let ?new = "newWinning (dr_now rq) (dr_client_id rq) (dr_prize_id rq)
                          (dr_roulette_id rq) (dr_manual rq)"
      show ?thesis
      proof (cases "beforeCreate m (dr_now rq) (dr_random rq) w table ?new")
        case (Inl e)
        with d s Some Available show ?thesis by (auto simp: draw_def create_def)
      next
        case (Inr pw1)
        from beforeCreate_prize_id[OF Inr] have "pw_prize_id pw1 = dr_prize_id rq"
          by (simp add: newWinning_def)
        with d s Some Available Inr show ?thesis
          by (auto simp: draw_def create_def)
      qed
    qed
  qed
qed

lemma draw_stock_respected:
  assumes "stock_respected (fst s)"
  shows "stock_respected (fst (snd (draw m rq s)))"
proof -
  obtain res s1 where d: "draw m rq s = (res, s1)" by (cases "draw m rq s")
  from draw_cases[OF d] show ?thesis
  proof
    assume "s1 = s \<and> (\<exists>e. res = Inl e)"
    with d assms show ?thesis by simp
  next
    assume "\<exists>p pw1. prizes (fst s) (dr_prize_id rq) = Some p \<and>
        isAvailable p (dr_now rq) = Available \<and>
        res = Inr pw1 \<and> pw_prize_id pw1 = dr_prize_id rq \<and>
        s1 = (afterCreate m pw1 (fst s), snd s @ [pw1])"
    then obtain p pw1 where p: "prizes (fst s) (dr_prize_id rq) = Some p"
      and av: "isAvailable p (dr_now rq) = Available"
      and id: "pw_prize_id pw1 = dr_prize_id rq"
      and s1: "s1 = (afterCreate m pw1 (fst s), snd s @ [pw1])" by blast
    have "stock_respected (afterCreate m pw1 (fst s))"
      unfolding stock_respected_def
    proof (intro allI impI)
      fix pid p' q
      assume a: "prizes (afterCreate m pw1 (fst s)) pid = Some p' \<and> pz_stock_quantity p' = Some q"
      show "pz_awarded_count p' \<le> q"
      proof (cases "has_Prize m \<and> pid = dr_prize_id rq")
        case True
        with a p id have p': "p' = incrementAwarded p"
          by (simp add: afterCreate_prizes)
        with a have "pz_stock_quantity p = Some q" by (simp add: incrementAwarded_def)
        from isAvailable_stock[OF av this] p' show ?thesis
          by (simp add: incrementAwarded_def)
      next
        case False
        with a p id have "prizes (fst s) pid = Some p'"
          by (auto simp: afterCreate_prizes split: if_splits)
        with a assms show ?thesis unfolding stock_respected_def by blast
      qed
    qed
    with d s1 show ?thesis by simp
  qed
qed

lemma draws_stock_respected:
  "stock_respected (fst s) \<Longrightarrow> stock_respected (fst (draws m rqs s))"
  by (induction rqs arbitrary: s) (simp_all add: draw_stock_respected)

lemma draw_exhausted:
  assumes "prizes (fst s) (dr_prize_id rq) = Some p" and "pz_stock_quantity p = Some q"
    and "q \<le> pz_awarded_count p"
  shows "\<exists>r. draw m rq s = (Inl (DrawUnavailable r), s)"
proof -
  from assms have "isAvailable p (dr_now rq) \<noteq> Available"
    by (auto simp: isAvailable_def)
  then obtain r where "isAvailable p (dr_now rq) = Unavailable r"
    by (cases "isAvailable p (dr_now rq)") auto
  with assms show ?thesis by (simp add: draw_def)
qed

lemma draw_increments:
  assumes "has_Prize m" and "draw m rq s = (Inr pw, s1)"
    and "prizes (fst s) (dr_prize_id rq) = Some p"
  shows "prizes (fst s1) (dr_prize_id rq) = Some (p\<lparr>pz_awarded_count := pz_awarded_count p + 1\<rparr>)"
  using draw_cases[OF assms(2)] assms(1,3)
  by (auto simp: afterCreate_prizes incrementAwarded_def draw_def split: option.splits)

lemma stock_respected_cong: "prizes w' = prizes w \<Longrightarrow> stock_respected w' = stock_respected w"
  by (simp add: stock_respected_def)

lemma incrementRedeemed_stock:
  "stock_respected w \<Longrightarrow> stock_respected (incrementRedeemed pid w)"
  by (auto simp: stock_respected_def incrementRedeemed_def split: option.splits if_splits)

lemma sendNotification_prizes [simp]:
  "prizes (fst (sendNotification m now ty (w, pw))) = prizes w"
  by (simp add: sendNotification_def)

lemma applyToClient_prizes:
  "applyToClient m p c w = (r, w1) \<Longrightarrow> prizes w1 = prizes w"
  by (auto simp: applyToClient_def split: if_splits prize_type.splits)

lemma incrementRedeemed_prizes_cong:
  "prizes w1 = prizes w \<Longrightarrow> prizes (incrementRedeemed pid w1) = prizes (incrementRedeemed pid w)"
  by (simp add: incrementRedeemed_def split: option.splits)

lemma apply_pw_stock:
  assumes "stock_respected w"
  shows "stock_respected (fst (snd (apply_pw m now u (w, pw))))"
proof -
  have "prizes (fst (snd (apply_pw m now u (w, pw)))) = prizes w \<or>
        prizes (fst (snd (apply_pw m now u (w, pw)))) = prizes (incrementRedeemed (pw_prize_id pw) w)"
  proof (cases "canBeApplied now pw = None \<and> has_Prize m")
    case False
    then show ?thesis by (auto simp: apply_pw_def split: option.splits)
  next
    case True
    show ?thesis
    proof (cases "prizes w (pw_prize_id pw)")
      case None
      with True show ?thesis by (simp add: apply_pw_def)
    next
      case (Some p)
      obtain r w1 where a: "applyToClient m p (pw_client_id pw) w = (r, w1)"
        by (cases "applyToClient m p (pw_client_id pw) w") auto
      note pz = applyToClient_prizes[OF a]
      show ?thesis
      proof (cases r)
        case (Inl e)
        with True Some a pz show ?thesis by (simp add: apply_pw_def)
      next
        case (Inr res)
        with True Some a pz incrementRedeemed_prizes_cong[OF pz, of "pw_prize_id pw"]
        show ?thesis
          by (cases "res = Applied_ok") (simp_all add: apply_pw_def Let_def)
      qed
    qed
  qed
  then show ?thesis
  proof
    assume "prizes (fst (snd (apply_pw m now u (w, pw)))) = prizes w"
    from stock_respected_cong[OF this] assms show ?thesis by simp
  next
    assume "prizes (fst (snd (apply_pw m now u (w, pw))))
      = prizes (incrementRedeemed (pw_prize_id pw) w)"
    from stock_respected_cong[OF this] incrementRedeemed_stock[OF assms] show ?thesis by simp
  qed
qed

lemma redeem_stock:
  assumes "stock_respected w"
  shows "stock_respected (fst (snd (redeem m now u notes (w, pw))))"
proof -
  have "prizes (fst (snd (redeem m now u notes (w, pw)))) = prizes w \<or>
        prizes (fst (snd (redeem m now u notes (w, pw)))) = prizes (incrementRedeemed (pw_prize_id pw) w)"
    by (simp add: redeem_def Let_def)
  then show ?thesis
  proof
    assume "prizes (fst (snd (redeem m now u notes (w, pw)))) = prizes w"
    from stock_respected_cong[OF this] assms show ?thesis by simp
  next
    assume "prizes (fst (snd (redeem m now u notes (w, pw))))
      = prizes (incrementRedeemed (pw_prize_id pw) w)"
    from stock_respected_cong[OF this] incrementRedeemed_stock[OF assms] show ?thesis by simp
  qed
qed

lemma cancel_stock:
  assumes "stock_respected w"
  shows "stock_respected (fst (snd (cancel m now u why (w, pw))))"
proof -
  have "prizes (fst (snd (cancel m now u why (w, pw)))) = prizes w"
    by (simp add: cancel_def Let_def)
  from stock_respected_cong[OF this] assms show ?thesis by simp
qed

lemma verify_snd:
  "snd (verify m now u (w, pw)) =
      (w, save now pw (pw\<lparr>pw_verified := True, pw_verified_by_user_id := Some u,
                           pw_verified_date := Some now\<rparr>)) \<or>
   snd (verify m now u (w, pw)) =
      snd (apply_pw m now (Some u)
        (w, save now pw (pw\<lparr>pw_verified := True, pw_verified_by_user_id := Some u,
                             pw_verified_date := Some now\<rparr>)))"
  by (simp add: verify_def Let_def split: option.splits prod.splits sum.splits)

lemma verify_stock:
  assumes "stock_respected w"
  shows "stock_respected (fst (snd (verify m now u (w, pw))))"
proof -
  from verify_snd[of m now u w pw] show ?thesis
  proof
    assume "snd (verify m now u (w, pw)) =
      (w, save now pw (pw\<lparr>pw_verified := True, pw_verified_by_user_id := Some u,
                           pw_verified_date := Some now\<rparr>))"
    with assms show ?thesis by simp
  next
    assume "snd (verify m now u (w, pw)) =
      snd (apply_pw m now (Some u)
        (w, save now pw (pw\<lparr>pw_verified := True, pw_verified_by_user_id := Some u,
                             pw_verified_date := Some now\<rparr>)))"
    with apply_pw_stock[OF assms] show ?thesis by simp
  qed
qed

lemma exec_stock: "stock_respected (fst s) \<Longrightarrow> stock_respected (fst (exec m x s))"
proof -
  assume a: "stock_respected (fst s)"
  obtain w pw where s: "s = (w, pw)" by (cases s)
  obtain now o' where x: "x = (now, o')" by (cases x)
  from a show ?thesis unfolding s x
    by (cases o') (simp_all add: apply_pw_stock redeem_stock verify_stock cancel_stock)
qed

lemma run_stock: "stock_respected (fst s) \<Longrightarrow> stock_respected (fst (run m xs s))"
  by (induction xs arbitrary: s) (simp_all add: exec_stock)

text \<open>
  C8. Under any sequence of draws (availability check, then creation of the won-prize
  row), no prize with a stock ceiling ends with \<open>awarded_count\<close> above the ceiling,
  provided none started so; the lifecycle requests on a won-prize row keep this too. A
  draw that succeeds adds exactly one to the counter of its prize, and a draw of a
  prize whose counter has reached the ceiling is refused and changes nothing.
\<close>

theorem awarded_count_within_stock:
  "(stock_respected (fst s) \<longrightarrow> stock_respected (fst (draws m rqs s))) \<and>
   (stock_respected (fst ls) \<longrightarrow> stock_respected (fst (run m ops ls))) \<and>
   (has_Prize m \<and> draw m rq s = (Inr pw, s1) \<and> prizes (fst s) (dr_prize_id rq) = Some p \<longrightarrow>
      prizes (fst s1) (dr_prize_id rq) = Some (p\<lparr>pz_awarded_count := pz_awarded_count p + 1\<rparr>)) \<and>
   (prizes (fst s) (dr_prize_id rq) = Some p \<and> pz_stock_quantity p = Some q \<and>
    q \<le> pz_awarded_count p \<longrightarrow> (\<exists>r. draw m rq s = (Inl (DrawUnavailable r), s)))"
  using draws_stock_respected [of s m rqs] run_stock [of ls m ops]
    draw_increments [of m rq s pw s1 p] draw_exhausted [of s rq p q m]
  by blast

lemma gym_world_stock: "stock_respected gym_world"
  by (simp add: stock_respected_def gym_world_def points_prize_def)

theorem awarded_count_within_stock_witness:
  "stock_respected (fst (gym_world, [])) \<and>
   stock_respected (fst (draws all_models [sample_draw 32400000 ''c1'', sample_draw 36000000 ''c2'']
      (gym_world, []))) \<and>
   map_option pz_awarded_count
     (prizes (fst (draws all_models [sample_draw 32400000 ''c1'', sample_draw 36000000 ''c2'']
        (gym_world, []))) ''p1'') = Some 2"
proof -
  have h: "stock_respected (fst (gym_world, []))" by (simp add: gym_world_stock)
  have n: "map_option pz_awarded_count
     (prizes (fst (draws all_models [sample_draw 32400000 ''c1'', sample_draw 36000000 ''c2'']
        (gym_world, []))) ''p1'') = Some 2"
    by (simp add: draw_def create_def beforeCreate_def afterCreate_def isAvailable_def
        sample_draw_def gym_world_def points_prize_def all_models_def newWinning_def
        incrementAwarded_def truthy_def Let_def)
  from h awarded_count_within_stock [where s = "(gym_world, [])" and m = all_models
      and rqs = "[sample_draw 32400000 ''c1'', sample_draw 36000000 ''c2'']", THEN conjunct1]
  have "stock_respected (fst (draws all_models
      [sample_draw 32400000 ''c1'', sample_draw 36000000 ''c2''] (gym_world, [])))"
    by (rule rev_mp)
  with h n show ?thesis by (intro conjI)
qed

section \<open>Properties of the redemption codes\<close>

lemma chars_facts:
  "length chars = 32 \<and> distinct chars \<and>
   set chars \<inter> {CHR ''0'', CHR ''O'', CHR ''1'', CHR ''I''} = {}"
  by (simp add: chars_def)

lemma charAt_chars:
  fixes u :: rat
  assumes "0 \<le> u" and "u < 1"
  shows "\<exists>c \<in> set chars. charAt chars \<lfloor>u * of_nat (length chars)\<rfloor> = [c]"
proof -
  define i where "i = \<lfloor>u * of_nat (length chars)\<rfloor>"
  have len: "length chars = 32" by (simp add: chars_def)
  from assms have lo: "0 \<le> i" by (simp add: i_def len)
  from assms have "u * 32 < 32" by simp
  then have hi: "i < 32" by (simp add: i_def len floor_less_iff)
  from lo hi have "nat i < length chars" unfolding len by linarith
  then have "chars ! nat i \<in> set chars" by (rule nth_mem)
  moreover from lo hi have "charAt chars i = [chars ! nat i]"
    by (simp add: charAt_def len)
  ultimately show ?thesis unfolding i_def by blast
qed

lemma concat_singletons:
  "(\<forall>x \<in> set xs. \<exists>c \<in> A. f x = [c]) \<Longrightarrow>
     length (concat (map f xs)) = length xs \<and> set (concat (map f xs)) \<subseteq> A"
  by (induction xs) auto

lemma randomCode_shape:
  assumes "\<forall>k. 0 \<le> rnd k \<and> rnd k < 1"
  shows "length (randomCode rnd k) = 8 \<and> set (randomCode rnd k) \<subseteq> set chars"
proof -
  have "\<forall>i \<in> set [0..<8].
      \<exists>c \<in> set chars. charAt chars \<lfloor>rnd (k + i) * of_nat (length chars)\<rfloor> = [c]"
    using assms charAt_chars by blast
  from concat_singletons[OF this] show ?thesis by (simp add: randomCode_def)
qed

lemma existing_iff:
  "existing table code \<longleftrightarrow> (\<exists>w \<in> set table. pw_redemption_code w = Some code)"
  by (auto simp: existing_def find_None_iff)

lemma codeLoop_sound:
  "attempts < maxAttempts \<Longrightarrow> codeLoop rnd table k attempts = (code, a) \<Longrightarrow> a < maxAttempts \<Longrightarrow>
     \<not> existing table code \<and> (\<exists>j. code = randomCode rnd (k + 8 * j))"
proof (induction rnd table k attempts rule: codeLoop.induct)
  case (1 rnd table k attempts)
  show ?case
  proof (cases "existing table (randomCode rnd k)")
    case False
    with "1.prems" have "code = randomCode rnd k"
      by (simp add: codeLoop.simps[of rnd table k attempts])
    with False show ?thesis by (metis add_0_right mult_0_right)
  next
    case True
    show ?thesis
    proof (cases "attempts + 1 < maxAttempts")
      case False
      with True "1.prems" show ?thesis
        by (simp add: codeLoop.simps[of rnd table k attempts])
    next
      case lt: True
      with True "1.prems" have "codeLoop rnd table (k + 8) (attempts + 1) = (code, a)"
        by (simp add: codeLoop.simps[of rnd table k attempts])
      moreover from True have "\<not> \<not> existing table (randomCode rnd k)" by simp
      ultimately have "\<not> existing table code \<and> (\<exists>j. code = randomCode rnd (k + 8 + 8 * j))"
        using lt "1.prems"(3) by (intro "1.IH"[OF refl]) simp_all
      then
      obtain j where "\<not> existing table code" and "code = randomCode rnd (k + 8 + 8 * j)"
        by blast
      then have "\<not> existing table code \<and> code = randomCode rnd (k + 8 * Suc j)"
        by (simp add: add.assoc)
      then show ?thesis by blast
    qed
  qed
qed

lemma codeLoop_retries:
  "attempts + n < maxAttempts \<Longrightarrow>
   (\<forall>j<n. existing table (randomCode rnd (k + 8 * j))) \<Longrightarrow>
   \<not> existing table (randomCode rnd (k + 8 * n)) \<Longrightarrow>
     codeLoop rnd table k attempts = (randomCode rnd (k + 8 * n), attempts + n)"
proof (induction n arbitrary: k attempts)
  case 0
  then show ?case by (simp add: codeLoop.simps[of rnd table k attempts])
next
  case (Suc n)
  from Suc.prems(2) have first: "existing table (randomCode rnd k)" by force
  from Suc.prems(1) have lt: "attempts + 1 < maxAttempts" by simp
  have a: "Suc attempts + n < maxAttempts" using Suc.prems(1) by simp
  have b: "\<forall>j<n. existing table (randomCode rnd (k + 8 + 8 * j))"
  proof (intro allI impI)
    fix j assume "j < n"
    then have "Suc j < Suc n" by simp
    with Suc.prems(2) have "existing table (randomCode rnd (k + 8 * Suc j))" by blast
    then show "existing table (randomCode rnd (k + 8 + 8 * j))" by (simp add: add.assoc)
  qed
  have c: "\<not> existing table (randomCode rnd (k + 8 + 8 * n))"
    using Suc.prems(3) by (simp add: add.assoc)
  from Suc.IH[OF a b c] first lt show ?case
    by (simp add: codeLoop.simps[of rnd table k attempts] add.assoc)
qed

lemma codeLoop_exhausted:
  "attempts + n = maxAttempts \<Longrightarrow> 0 < n \<Longrightarrow>
   (\<forall>j<n. existing table (randomCode rnd (k + 8 * j))) \<Longrightarrow>
     snd (codeLoop rnd table k attempts) = maxAttempts"
proof (induction n arbitrary: k attempts)
  case 0
  then show ?case by simp
next
  case (Suc n)
  from Suc.prems(3) have first: "existing table (randomCode rnd k)" by force
  show ?case
  proof (cases "n = 0")
    case True
    with Suc.prems(1) first show ?thesis
      by (simp add: codeLoop.simps[of rnd table k attempts])
  next
    case False
    with Suc.prems(1) have lt: "attempts + 1 < maxAttempts" by simp
    have a: "Suc attempts + n = maxAttempts" using Suc.prems(1) by simp
    have b: "\<forall>j<n. existing table (randomCode rnd (k + 8 + 8 * j))"
    proof (intro allI impI)
      fix j assume "j < n"
      then have "Suc j < Suc n" by simp
      with Suc.prems(3) have "existing table (randomCode rnd (k + 8 * Suc j))" by blast
      then show "existing table (randomCode rnd (k + 8 + 8 * j))" by (simp add: add.assoc)
    qed
    from False have "0 < n" by simp
    from Suc.IH[OF a this b] first lt show ?thesis
      by (simp add: codeLoop.simps[of rnd table k attempts])
  qed
qed

text \<open>
  C7. With a random source in \<open>[0, 1)\<close>, a returned code has eight characters, all of
  the 32-character alphabet, which has neither 0, O, 1 nor I, and no stored row carries
  it. When the first \<open>n < 10\<close> candidates collide and the next one does not, the loop
  ends on that candidate after exactly \<open>n\<close> retries (one retry when the source repeats
  one stored value). When all ten candidates collide, the call throws the
  code-generation-exhausted error.
\<close>

theorem redemption_code_unique_or_exhausted:
  "((\<forall>k. 0 \<le> rnd k \<and> rnd k < 1) \<and> generateRedemptionCode rnd table = Inr code \<longrightarrow>
      length code = 8 \<and> set code \<subseteq> set chars \<and>
      (\<forall>w \<in> set table. pw_redemption_code w \<noteq> Some code)) \<and>
   length chars = 32 \<and> distinct chars \<and>
   set chars \<inter> {CHR ''0'', CHR ''O'', CHR ''1'', CHR ''I''} = {} \<and>
   (n < 10 \<and> (\<forall>j<n. collides rnd table j) \<and> \<not> collides rnd table n \<longrightarrow>
      codeLoop rnd table 0 0 = (randomCode rnd (8 * n), n) \<and>
      generateRedemptionCode rnd table = Inr (randomCode rnd (8 * n))) \<and>
   ((\<forall>j<10. collides rnd table j) \<longrightarrow>
      generateRedemptionCode rnd table = Inl CodeGenerationExhausted)"
proof (intro conjI impI)
  assume a: "(\<forall>k. 0 \<le> rnd k \<and> rnd k < 1) \<and> generateRedemptionCode rnd table = Inr code"
  obtain c tries where l: "codeLoop rnd table 0 0 = (c, tries)" by (cases "codeLoop rnd table 0 0")
  with a have lt: "tries < maxAttempts" and c: "c = code"
    by (auto simp: generateRedemptionCode_def split: if_splits)
  have "0 < maxAttempts" by (simp add: maxAttempts_def)
  from codeLoop_sound[OF this l lt] c obtain j where
    ne: "\<not> existing table code" and j: "code = randomCode rnd (0 + 8 * j)" by blast
  from a randomCode_shape[of rnd "0 + 8 * j"] j
  show "length code = 8" and "set code \<subseteq> set chars" by simp_all
  from ne show "\<forall>w \<in> set table. pw_redemption_code w \<noteq> Some code"
    by (simp add: existing_iff)
next
  assume a: "n < 10 \<and> (\<forall>j<n. collides rnd table j) \<and> \<not> collides rnd table n"
  then have "0 + n < maxAttempts"
    and "\<forall>j<n. existing table (randomCode rnd (0 + 8 * j))"
    and "\<not> existing table (randomCode rnd (0 + 8 * n))"
    by (simp_all add: maxAttempts_def collides_def existing_iff)
  from codeLoop_retries[OF this]
  show l: "codeLoop rnd table 0 0 = (randomCode rnd (8 * n), n)" by simp
  from a show "generateRedemptionCode rnd table = Inr (randomCode rnd (8 * n))"
    by (simp add: generateRedemptionCode_def l maxAttempts_def)
next
  assume "\<forall>j<10. collides rnd table j"
  then have "\<forall>j<10. existing table (randomCode rnd (0 + 8 * j))"
    by (simp add: collides_def existing_iff)
  from codeLoop_exhausted[of 0 10 table rnd 0, OF _ _ this]
  have "snd (codeLoop rnd table 0 0) = maxAttempts" by (simp add: maxAttempts_def)
  then show "generateRedemptionCode rnd table = Inl CodeGenerationExhausted"
    by (cases "codeLoop rnd table 0 0") (simp add: generateRedemptionCode_def)
qed (simp_all add: chars_facts)

lemma repeating_first: "randomCode repeating_source 0 = ''AAAAAAAA''"
  by (simp add: randomCode_def repeating_source_def charAt_def chars_def upt_rec)

lemma repeating_second: "randomCode repeating_source 8 = ''BBBBBBBB''"
  by (simp add: randomCode_def repeating_source_def charAt_def chars_def upt_rec)

lemma constant_source_code: "randomCode (\<lambda>k. 0) k = ''AAAAAAAA''"
  by (simp add: randomCode_def charAt_def chars_def upt_rec)

theorem redemption_code_unique_or_exhausted_witness:
  "(1::nat) < 10 \<and> collides repeating_source stored_table 0 \<and>
   \<not> collides repeating_source stored_table 1 \<and>
   codeLoop repeating_source stored_table 0 0 = (''BBBBBBBB'', 1) \<and>
   generateRedemptionCode repeating_source stored_table = Inr ''BBBBBBBB'' \<and>
   set ''BBBBBBBB'' \<subseteq> set chars \<and>
   collides (\<lambda>k. 0) stored_table 9 \<and>
   generateRedemptionCode (\<lambda>k. 0) stored_table = Inl CodeGenerationExhausted"
proof -
  note first = redemption_code_unique_or_exhausted [where rnd = repeating_source
    and table = stored_table and code = "''BBBBBBBB''", THEN conjunct1]
  note retries = redemption_code_unique_or_exhausted [where rnd = repeating_source
    and table = stored_table and n = 1,
    THEN conjunct2, THEN conjunct2, THEN conjunct2, THEN conjunct2, THEN conjunct1]
  note exhausted = redemption_code_unique_or_exhausted [where rnd = "\<lambda>k. 0"
    and table = stored_table,
    THEN conjunct2, THEN conjunct2, THEN conjunct2, THEN conjunct2, THEN conjunct2]
  have r: "\<forall>k. 0 \<le> repeating_source k \<and> repeating_source k < 1"
    by (simp add: repeating_source_def)
  have c0: "\<forall>j<1. collides repeating_source stored_table j"
    by (simp add: collides_def stored_table_def repeating_first)
  have c1: "\<not> collides repeating_source stored_table 1"
    by (simp add: collides_def stored_table_def repeating_second)
  from c0 c1 retries
  have "codeLoop repeating_source stored_table 0 0 = (randomCode repeating_source (8 * 1), 1) \<and>
      generateRedemptionCode repeating_source stored_table = Inr (randomCode repeating_source (8 * 1))"
    by simp
  then have g1: "codeLoop repeating_source stored_table 0 0 = (''BBBBBBBB'', 1)"
    and g2: "generateRedemptionCode repeating_source stored_table = Inr ''BBBBBBBB''"
    by (simp_all add: repeating_second)
  from r g2 have "(\<forall>k. 0 \<le> repeating_source k \<and> repeating_source k < 1) \<and>
      generateRedemptionCode repeating_source stored_table = Inr ''BBBBBBBB''" by (rule conjI)
  from first [THEN mp, OF this]
  have s: "set ''BBBBBBBB'' \<subseteq> set chars" by (elim conjE)
  have all: "\<forall>j<10. collides (\<lambda>k. 0) stored_table j"
    by (simp add: collides_def stored_table_def constant_source_code)
  from exhausted [THEN mp, OF all]
  have x: "generateRedemptionCode (\<lambda>k. 0) stored_table = Inl CodeGenerationExhausted" .
  have t: "(1::nat) < 10" by simp
  from c0 have c00: "collides repeating_source stored_table 0" by simp
  from all have c9: "collides (\<lambda>k. 0) stored_table 9" by simp
  from t c00 c1 g1 g2 s c9 x show ?thesis by (intro conjI)
qed

section \<open>Properties of the roulette\<close>

lemma round_double_zero [simp]: "round_double 0 = Finite 0"
  by (simp add: round_double_def)

lemma round_double_minus: "round_double (- x) = js_neg (round_double x)"
  by (cases "0 < x"; cases "x = 0") (simp_all add: round_double_def Let_def)

lemma walk_first:
  "i < length cfg \<Longrightarrow>
   js_le r (foldl js_add c (map (\<lambda>s. sc_probability (snd s)) (take (Suc i) cfg))) \<Longrightarrow>
   (\<forall>j<i. \<not> js_le r (foldl js_add c (map (\<lambda>s. sc_probability (snd s)) (take (Suc j) cfg)))) \<Longrightarrow>
     walk cfg r c = Some (cfg ! i)"
proof (induction cfg arbitrary: i c)
  case Nil
  then show ?case by simp
next
  case (Cons s rest)
  show ?case
  proof (cases i)
    case 0
    with Cons.prems show ?thesis by simp
  next
    case (Suc k)
    from Cons.prems(3) Suc
    have "\<not> js_le r (foldl js_add c (map (\<lambda>s. sc_probability (snd s)) (take (Suc 0) (s # rest))))"
      by blast
    then have skip: "\<not> js_le r (js_add c (sc_probability (snd s)))" by simp
    have a: "k < length rest" using Cons.prems(1) Suc by simp
    have b: "js_le r (foldl js_add (js_add c (sc_probability (snd s)))
                 (map (\<lambda>s. sc_probability (snd s)) (take (Suc k) rest)))"
      using Cons.prems(2) Suc by simp
    have d: "\<forall>j<k. \<not> js_le r (foldl js_add (js_add c (sc_probability (snd s)))
                 (map (\<lambda>s. sc_probability (snd s)) (take (Suc j) rest)))"
    proof (intro allI impI)
      fix j assume "j < k"
      then have "Suc j < i" using Suc by simp
      with Cons.prems(3)
      have "\<not> js_le r (foldl js_add c
                 (map (\<lambda>s. sc_probability (snd s)) (take (Suc (Suc j)) (s # rest))))"
        by blast
      then show "\<not> js_le r (foldl js_add (js_add c (sc_probability (snd s)))
                 (map (\<lambda>s. sc_probability (snd s)) (take (Suc j) rest)))"
        by simp
    qed
    from Cons.IH[OF a b d] skip Suc show ?thesis by simp
  qed
qed

lemma walk_none:
  "(\<forall>i<length cfg.
      \<not> js_le r (foldl js_add c (map (\<lambda>s. sc_probability (snd s)) (take (Suc i) cfg)))) \<Longrightarrow>
     walk cfg r c = None"
proof (induction cfg arbitrary: c)
  case Nil
  show ?case by simp
next
  case (Cons s rest)
  from Cons.prems
  have "\<not> js_le r (foldl js_add c (map (\<lambda>s. sc_probability (snd s)) (take (Suc 0) (s # rest))))"
    by (metis length_greater_0_conv list.distinct(1))
  then have skip: "\<not> js_le r (js_add c (sc_probability (snd s)))" by simp
  have "\<forall>i<length rest. \<not> js_le r (foldl js_add (js_add c (sc_probability (snd s)))
                 (map (\<lambda>s. sc_probability (snd s)) (take (Suc i) rest)))"
  proof (intro allI impI)
    fix i assume "i < length rest"
    then have "Suc i < length (s # rest)" by simp
    with Cons.prems
    have "\<not> js_le r (foldl js_add c
               (map (\<lambda>s. sc_probability (snd s)) (take (Suc (Suc i)) (s # rest))))"
      by blast
    then show "\<not> js_le r (foldl js_add (js_add c (sc_probability (snd s)))
                 (map (\<lambda>s. sc_probability (snd s)) (take (Suc i) rest)))"
      by simp
  qed
  from Cons.IH[OF this] skip show ?case by simp
qed

lemma indexFrom_distinct:
  "distinct (map fst xs) \<Longrightarrow> i < length xs \<Longrightarrow> indexFrom xs (xs ! i) k = k + int i"
proof (induction xs arbitrary: i k)
  case Nil
  then show ?case by simp
next
  case (Cons y ys)
  show ?case
  proof (cases i)
    case 0
    then show ?thesis by simp
  next
    case (Suc j)
    with Cons.prems have j: "j < length ys" and d: "distinct (map fst ys)"
      and "fst y \<notin> fst ` set ys" by simp_all
    then have "fst y \<noteq> fst (ys ! j)" by (metis imageI nth_mem)
    with Cons.IH[OF d j, of "k + 1"] Suc show ?thesis by simp
  qed
qed

lemma indexOf_distinct:
  "distinct (map fst xs) \<Longrightarrow> i < length xs \<Longrightarrow> indexOf xs (xs ! i) = int i"
  by (simp add: indexOf_def indexFrom_distinct)

lemma js_mul_random:
  assumes "round_double u = Finite u" and "0 \<le> u" and "u < 1"
  shows "\<exists>r. js_mul (Finite u) (Finite 100) = Finite r \<and> 0 \<le> r \<and> r < 100"
  using random_times_100[OF assms] by simp

text \<open>
  C2. \<open>selectPrize\<close> throws on an empty sector list. The value \<open>r\<close> it draws is
  \<open>Math.random()\<close> times 100 in double arithmetic, and lies in \<open>[0, 100)\<close> for every
  double in \<open>[0, 1)\<close>. On a non-empty list it returns the first sector in stored order
  whose running total of weights, as the loop adds them, is at least \<open>r\<close>, with that
  sector's position and configuration; when no running total reaches \<open>r\<close> it returns
  the last sector with the last position. Array elements are distinct objects.
\<close>

theorem selectPrize_first_cumulative:
  "(cfg = [] \<longrightarrow> selectPrize cfg u = Inl NoSectors) \<and>
   (round_double u = Finite u \<and> 0 \<le> u \<and> u < 1 \<longrightarrow>
      (\<exists>r. js_mul (Finite u) (Finite 100) = Finite r \<and> 0 \<le> r \<and> r < 100)) \<and>
   (cfg \<noteq> [] \<and> distinct (map fst cfg) \<longrightarrow>
      (\<forall>i<length cfg.
         js_le (js_mul (Finite u) (Finite 100)) (cumulative cfg i) \<and>
         (\<forall>j<i. \<not> js_le (js_mul (Finite u) (Finite 100)) (cumulative cfg j)) \<longrightarrow>
           selectPrize cfg u =
             Inr \<lparr>prize_id = sc_prize_id (snd (cfg ! i)), sector_index = int i,
                  sector_config = cfg ! i\<rparr>) \<and>
      ((\<forall>i<length cfg. \<not> js_le (js_mul (Finite u) (Finite 100)) (cumulative cfg i)) \<longrightarrow>
           selectPrize cfg u =
             Inr \<lparr>prize_id = sc_prize_id (snd (last cfg)),
                  sector_index = int (length cfg) - 1, sector_config = last cfg\<rparr>))"
proof (intro conjI impI allI)
  assume "cfg = []"
  then show "selectPrize cfg u = Inl NoSectors" by (simp add: selectPrize_def)
next
  assume "round_double u = Finite u \<and> 0 \<le> u \<and> u < 1"
  then show "\<exists>r. js_mul (Finite u) (Finite 100) = Finite r \<and> 0 \<le> r \<and> r < 100"
    using js_mul_random[of u] by blast
next
  fix i
  assume h: "cfg \<noteq> [] \<and> distinct (map fst cfg)"
    and i: "i < length cfg"
    and f: "js_le (js_mul (Finite u) (Finite 100)) (cumulative cfg i) \<and>
         (\<forall>j<i. \<not> js_le (js_mul (Finite u) (Finite 100)) (cumulative cfg j))"
  from f have "walk cfg (js_mul (Finite u) (Finite 100)) (Finite 0) = Some (cfg ! i)"
    unfolding cumulative_def by (intro walk_first[OF i]) simp_all
  with h i show "selectPrize cfg u =
             Inr \<lparr>prize_id = sc_prize_id (snd (cfg ! i)), sector_index = int i,
                  sector_config = cfg ! i\<rparr>"
    by (simp add: selectPrize_def Let_def indexOf_distinct)
next
  assume h: "cfg \<noteq> [] \<and> distinct (map fst cfg)"
    and n: "\<forall>i<length cfg. \<not> js_le (js_mul (Finite u) (Finite 100)) (cumulative cfg i)"
  from n have "walk cfg (js_mul (Finite u) (Finite 100)) (Finite 0) = None"
    unfolding cumulative_def by (intro walk_none) simp
  with h show "selectPrize cfg u =
             Inr \<lparr>prize_id = sc_prize_id (snd (last cfg)),
                  sector_index = int (length cfg) - 1, sector_config = last cfg\<rparr>"
    by (simp add: selectPrize_def Let_def last_conv_nth)
qed

text \<open>
  With the weights 10.34, 82.92 and 6.74, the draw \<open>sample_random\<close> times 100 and the
  running total after the second sector round to the same double, so the second
  sector is the first one reached.
\<close>

lemma sample_draw_value:
  "js_mul (Finite sample_random) (Finite 100) = Finite (6562589082008945 / 70368744177664)"
  by (simp add: sample_random_def sample_random_times_100)

lemma decimal_config_running:
  "cumulative decimal_config 0 = Finite (2910451259188183 / 281474976710656) \<and>
   cumulative decimal_config 1 = Finite (6562589082008945 / 70368744177664)"
  by (simp add: cumulative_def decimal_config_def sector_of_def decimal_def
      double_10_34 double_82_92 double_10_34_fixed double_10_34_plus_82_92)

theorem selectPrize_first_cumulative_witness:
  "decimal_config \<noteq> [] \<and> distinct (map fst decimal_config) \<and>
   round_double sample_random = Finite sample_random \<and> 0 \<le> sample_random \<and> sample_random < 1 \<and>
   (1::nat) < length decimal_config \<and>
   js_le (js_mul (Finite sample_random) (Finite 100)) (cumulative decimal_config 1) \<and>
   \<not> js_le (js_mul (Finite sample_random) (Finite 100)) (cumulative decimal_config 0) \<and>
   selectPrize decimal_config sample_random =
     Inr \<lparr>prize_id = Some ''p1'', sector_index = 1, sector_config = decimal_config ! 1\<rparr> \<and>
   js_mul (Finite sample_random) (Finite 100) = Finite (6562589082008945 / 70368744177664)"
proof -
  have h: "decimal_config \<noteq> [] \<and> distinct (map fst decimal_config)"
    by (simp add: decimal_config_def)
  have d: "round_double sample_random = Finite sample_random \<and> 0 \<le> sample_random \<and>
      sample_random < 1"
    by (simp add: sample_random_def sample_random_fixed)
  have i: "(1::nat) < length decimal_config" by (simp add: decimal_config_def)
  have f1: "js_le (js_mul (Finite sample_random) (Finite 100)) (cumulative decimal_config 1)"
    by (simp only: sample_draw_value decimal_config_running) simp
  have f0: "\<not> js_le (js_mul (Finite sample_random) (Finite 100)) (cumulative decimal_config 0)"
    by (simp only: sample_draw_value decimal_config_running) simp
  from f0 f1 have f: "js_le (js_mul (Finite sample_random) (Finite 100)) (cumulative decimal_config 1) \<and>
      (\<forall>j<1. \<not> js_le (js_mul (Finite sample_random) (Finite 100)) (cumulative decimal_config j))"
    by simp
  note T = selectPrize_first_cumulative [where cfg = decimal_config and u = sample_random]
  note R = T [THEN conjunct2, THEN conjunct1, THEN mp, OF d]
  note S = T [THEN conjunct2, THEN conjunct2, THEN mp, OF h, THEN conjunct1,
      THEN spec [where x = "1::nat"], THEN mp, OF i, THEN mp, OF f]
  from S have "selectPrize decimal_config sample_random =
      Inr \<lparr>prize_id = sc_prize_id (snd (decimal_config ! 1)), sector_index = int 1,
           sector_config = decimal_config ! 1\<rparr>" .
  moreover have "sc_prize_id (snd (decimal_config ! 1)) = Some ''p1''"
    by (simp add: decimal_config_def sector_of_def)
  ultimately have s: "selectPrize decimal_config sample_random =
     Inr \<lparr>prize_id = Some ''p1'', sector_index = 1, sector_config = decimal_config ! 1\<rparr>"
    by simp
  from h d i f1 f0 s sample_draw_value show ?thesis by (intro conjI) simp_all
qed

lemma totalProbability_truthy:
  "(\<forall>s \<in> set v. truthy_number (sc_probability (snd s))) \<Longrightarrow>
     foldl (\<lambda>sum sector.
              js_add sum (if truthy_number (sc_probability (snd sector))
                          then sc_probability (snd sector) else Finite 0)) z v
       = foldl js_add z (map (\<lambda>s. sc_probability (snd s)) v)"
  by (induction v arbitrary: z) simp_all

lemma totalProbability_double_sum:
  "(\<forall>s \<in> set v. truthy_number (sc_probability (snd s))) \<Longrightarrow> totalProbability v = double_sum v"
  by (simp add: totalProbability_def double_sum_def totalProbability_truthy)

lemma checkSectors_None:
  "checkSectors v k = None \<longleftrightarrow>
     (\<forall>s \<in> set v. truthy (sc_prize_id (snd s)) \<and> truthy_number (sc_probability (snd s))
                   \<and> truthy (sc_color (snd s)))"
  by (induction v arbitrary: k) auto

lemma sectorPrizesExist_None:
  "sectorPrizesExist w cfg = None \<longleftrightarrow>
     (\<forall>s \<in> set cfg. \<exists>pid p. sc_prize_id (snd s) = Some pid \<and> prizes w pid = Some p)"
  by (induction cfg) (auto simp: findPrize_def split: option.splits)

lemma tolerance_value: "decimal (1 / 100) = Finite (5764607523034235 / 576460752303423488)"
  by (simp add: decimal_def double_0_01)

lemma negative_config_total: "totalProbability negative_config = Finite 100"
  by (simp add: totalProbability_def negative_config_def sector_of_def truthy_number_def
      double_150_fixed double_100_fixed)

lemma zero_config_total: "totalProbability zero_config = Finite 100 \<and> double_sum zero_config = Finite 100"
  by (simp add: totalProbability_def double_sum_def zero_config_def sector_of_def
      truthy_number_def double_100_fixed)

lemma fair_config_total: "double_sum fair_config = Finite 100"
  by (simp add: double_sum_def fair_config_def sector_of_def
      double_50_fixed double_80_fixed double_100_fixed)

lemma near_config_total:
  "totalProbability near_config = Finite (7037578105208177 / 70368744177664)"
  by (simp add: totalProbability_def near_config_def sector_of_def truthy_number_def decimal_def
      double_0_4 double_99_61 double_0_4_fixed double_0_4_plus_99_61)

text \<open>
  The weights 0.4 and 99.61 add up to 100.01 in exact arithmetic, but their double sum
  lies more than the double tolerance away from 100, and the configuration is rejected.
\<close>

lemma near_config_rejected: "validateOnSave all_models gym_world near_config = Some SumNot100"
  by (simp add: validateOnSave_def isValidSectors_def near_config_total tolerance_value
      js_sub_def double_near_minus_100)

text \<open>
  C3 as stated fails both ways: a configuration with a negative weight is accepted
  when the weights still sum to 100, and a configuration with non-negative weights
  summing to 100 and existing prizes is rejected when one weight is 0.
\<close>

theorem negative_weight_counterexample:
  "validateOnSave all_models gym_world negative_config = None \<and>
   sc_probability (snd (negative_config ! 1)) = Finite (- 50) \<and>
   validateOnSave all_models gym_world zero_config = Some (SectorIncomplete 2) \<and>
   sc_probability (snd (zero_config ! 0)) = Finite 100 \<and>
   sc_probability (snd (zero_config ! 1)) = Finite 0 \<and>
   double_sum zero_config = Finite 100 \<and>
   sectorPrizesExist gym_world zero_config = None"
proof (intro conjI)
  show "validateOnSave all_models gym_world negative_config = None"
    by (simp add: validateOnSave_def isValidSectors_def negative_config_total tolerance_value
        js_sub_def)
      (simp add: negative_config_def sector_of_def truthy_def truthy_number_def
        validateSectorsConfiguration_def findPrize_def all_models_def gym_world_def)
  show "validateOnSave all_models gym_world zero_config = Some (SectorIncomplete 2)"
    by (simp add: validateOnSave_def isValidSectors_def zero_config_total tolerance_value
        js_sub_def)
      (simp add: zero_config_def sector_of_def truthy_def truthy_number_def)
  show "double_sum zero_config = Finite 100" by (simp add: zero_config_total)
  show "sectorPrizesExist gym_world zero_config = None"
    by (simp add: zero_config_def sector_of_def findPrize_def gym_world_def)
qed (simp_all add: negative_config_def zero_config_def sector_of_def)

text \<open>
  C3, amended. Saving accepts a configuration exactly when the double sum of the
  weights, added from left to right, is not more than the double 0.01 away from 100
  as the code tests it, every sector has a non-empty prize reference, a weight other
  than 0 and NaN and a non-empty colour, and, with the Prize model registered, every
  prize reference resolves to an existing prize. The sign of a weight is not checked.
\<close>

theorem validateOnSave_accepts_iff:
  "validateOnSave m w cfg = None \<longleftrightarrow>
     \<not> js_gt (js_abs (js_sub (double_sum cfg) (Finite 100))) (decimal (1 / 100)) \<and>
     (\<forall>s \<in> set cfg. truthy (sc_prize_id (snd s)) \<and> truthy_number (sc_probability (snd s))
                     \<and> truthy (sc_color (snd s))) \<and>
     (has_Prize m \<longrightarrow>
        (\<forall>s \<in> set cfg. \<exists>pid p. sc_prize_id (snd s) = Some pid \<and> prizes w pid = Some p))"
proof -
  let ?ok = "\<forall>s \<in> set cfg. truthy (sc_prize_id (snd s)) \<and> truthy_number (sc_probability (snd s))
                     \<and> truthy (sc_color (snd s))"
  have v: "isValidSectors cfg = None \<longleftrightarrow>
     \<not> js_gt (js_abs (js_sub (double_sum cfg) (Finite 100))) (decimal (1 / 100)) \<and> ?ok"
  proof (cases ?ok)
    case True
    then have "totalProbability cfg = double_sum cfg"
      by (intro totalProbability_double_sum) simp
    with True show ?thesis
      by (simp add: isValidSectors_def checkSectors_None [of cfg 0])
  next
    case False
    then have "checkSectors cfg 0 \<noteq> None" by (simp add: checkSectors_None [of cfg 0])
    with False show ?thesis by (auto simp: isValidSectors_def)
  qed
  show ?thesis
  proof (cases "isValidSectors cfg")
    case (Some e)
    then have "validateOnSave m w cfg \<noteq> None" by (simp add: validateOnSave_def)
    moreover from v Some
    have "\<not> (\<not> js_gt (js_abs (js_sub (double_sum cfg) (Finite 100))) (decimal (1 / 100)) \<and> ?ok)"
      by simp
    ultimately show ?thesis by blast
  next
    case None
    have ne: "cfg \<noteq> []"
    proof
      assume "cfg = []"
      with None show False
        by (simp add: isValidSectors_def totalProbability_def js_sub_def tolerance_value
            round_double_minus double_100_fixed)
    qed
    from None ne have "validateOnSave m w cfg = None \<longleftrightarrow>
        (has_Prize m \<longrightarrow>
          (\<forall>s \<in> set cfg. \<exists>pid p. sc_prize_id (snd s) = Some pid \<and> prizes w pid = Some p))"
      by (simp add: validateOnSave_def validateSectorsConfiguration_def sectorPrizesExist_None)
    with v None show ?thesis by simp
  qed
qed

theorem validateOnSave_accepts_iff_witness:
  "has_Prize all_models \<and> double_sum fair_config = Finite 100 \<and>
   \<not> js_gt (js_abs (js_sub (double_sum fair_config) (Finite 100))) (decimal (1 / 100)) \<and>
   validateOnSave all_models gym_world fair_config = None \<and>
   validateOnSave all_models gym_world near_config = Some SumNot100"
proof -
  have a: "has_Prize all_models" by (simp add: all_models_def)
  have b: "\<not> js_gt (js_abs (js_sub (double_sum fair_config) (Finite 100))) (decimal (1 / 100))"
    by (simp add: fair_config_total js_sub_def tolerance_value)
  have c: "\<forall>s \<in> set fair_config. truthy (sc_prize_id (snd s))
                     \<and> truthy_number (sc_probability (snd s)) \<and> truthy (sc_color (snd s))"
    by (simp add: fair_config_def sector_of_def truthy_def truthy_number_def)
  have d: "\<forall>s \<in> set fair_config. \<exists>pid p. sc_prize_id (snd s) = Some pid \<and> prizes gym_world pid = Some p"
    by (simp add: fair_config_def sector_of_def gym_world_def)
  from a b c d have "validateOnSave all_models gym_world fair_config = None"
    by (simp only: validateOnSave_accepts_iff [of all_models gym_world fair_config] simp_thms)
  with a b fair_config_total near_config_rejected show ?thesis by (intro conjI)
qed

end
